(* ===== verification/Prelude.thy ===== *)
theory Prelude
  imports Main "HOL-Library.Word" "HOL-Library.Monad_Syntax"
begin

text \<open>
  Shared vocabulary of the tx-firewall development.

  \<^item> Go's fixed-size data: \<open>byte\<close>, \<open>common.Address\<close> (20 bytes) and \<open>common.Hash\<close> (32 bytes) as
    words, and the wrap-around of Go's 64-bit \<open>int\<close>.
  \<^item> The parts of Go's standard library the source uses on strings and byte slices: big-endian
    integers (\<open>math/big\<close>), decimal printing (\<open>fmt\<close>), \<open>strings.Join\<close>.
  \<^item> Reads of a slice by index, which panic out of range.
  \<^item> Errors as values, results of a call that may fail or panic, and state-passing computations
    \<open>('s, 'a) io\<close> with their sequencing.
  \<^item> The interface \<open>lookup_service\<close> that every chain or sanctions lookup of the program offers to
    the rules.
\<close>

named_theorems io_simps \<open>unfolding of the state-passing combinators\<close>

named_theorems go_defs \<open>definitions that translate a Go function\<close>

subsection \<open>Fixed-size data\<close>

type_synonym byte = "8 word"

type_synonym address = "160 word"

type_synonym hash = "256 word"

type_synonym uint64 = "64 word"

text \<open>Go's \<open>int\<close> is 64 bits wide on every platform the firewall is built for; sums wrap around.\<close>

definition wrap_int :: "int \<Rightarrow> int" where
  "wrap_int x = signed_take_bit 63 x"

lemma wrap_int_id [simp]: "- (2 ^ 63) \<le> x \<Longrightarrow> x < 2 ^ 63 \<Longrightarrow> wrap_int x = x"
  by (simp add: wrap_int_def signed_take_bit_int_eq_self)

lemma wrap_int_range: "- (2 ^ 63) \<le> wrap_int x \<and> wrap_int x < 2 ^ 63"
  using signed_take_bit_int_greater_eq_minus_exp [of 63 x] signed_take_bit_int_less_exp [of 63 x]
  by (simp add: wrap_int_def)

subsection \<open>Byte slices as big-endian integers\<close>

text \<open>\<open>new(big.Int).SetBytes(bs)\<close>.\<close>

definition be_int :: "byte list \<Rightarrow> int" where
  "be_int bs = foldl (\<lambda>acc b. acc * 256 + uint b) 0 bs"

text \<open>The \<open>n\<close> big-endian bytes of an array that holds \<open>x\<close>.\<close>

fun be_bytes :: "nat \<Rightarrow> int \<Rightarrow> byte list" where
  "be_bytes 0 x = []"
| "be_bytes (Suc n) x = be_bytes n (x div 256) @ [word_of_int x]"

lemma be_int_Nil [simp]: "be_int [] = 0"
  by (simp add: be_int_def)

lemma be_int_snoc [simp]: "be_int (bs @ [b]) = be_int bs * 256 + uint b"
  by (simp add: be_int_def)

lemma uint_byte_less: "uint (b :: byte) < 256"
  using uint_lt2p [of b] by simp

lemma be_int_nonneg [simp]: "0 \<le> be_int bs"
  by (induction bs rule: rev_induct) auto

lemma be_int_less: "be_int bs < 256 ^ length bs"
proof (induction bs rule: rev_induct)
  case Nil
  then show ?case by simp
next
  case (snoc b bs)
  then have "be_int bs * 256 + uint b < 256 ^ length bs * 256"
    using uint_byte_less [of b] by linarith
  then show ?case by (simp add: mult.commute)
qed

lemma length_be_bytes [simp]: "length (be_bytes n x) = n"
  by (induction n arbitrary: x) auto

lemma uint_byte_of_int: "uint (word_of_int x :: byte) = x mod 256"
  by (simp add: uint_word_of_int)

lemma be_int_be_bytes: "be_int (be_bytes n x) = x mod 256 ^ n"
proof (induction n arbitrary: x)
  case 0
  then show ?case by simp
next
  case (Suc n)
  have "x mod (256 * 256 ^ n) = 256 * (x div 256 mod 256 ^ n) + x mod 256"
    by (rule zmod_zmult2_eq) simp
  with Suc show ?case
    by (simp add: uint_byte_of_int mult.commute)
qed

lemma be_bytes_be_int: "length bs = n \<Longrightarrow> be_bytes n (be_int bs) = bs"
proof (induction bs arbitrary: n rule: rev_induct)
  case Nil
  then show ?case by simp
next
  case (snoc b bs)
  then obtain m where m: "n = Suc m" "length bs = m" by auto
  have "(be_int bs * 256 + uint b) div 256 = be_int bs"
    using uint_byte_less [of b] by simp
  moreover have "word_of_int (be_int bs * 256 + uint b) = b"
  proof (rule word_uint_eqI)
    show "uint (word_of_int (be_int bs * 256 + uint b) :: byte) = uint b"
      unfolding uint_byte_of_int using uint_byte_less [of b] by simp
  qed
  ultimately show ?case
    using m snoc.IH [of m] by simp
qed

lemma drop_be_bytes: "k \<le> n \<Longrightarrow> drop k (be_bytes n x) = be_bytes (n - k) x"
proof (induction n arbitrary: x)
  case 0
  then show ?case by simp
next
  case (Suc n)
  show ?case
  proof (cases "k \<le> n")
    case True
    with Suc.IH [of "x div 256"] show ?thesis by (simp add: Suc_diff_le)
  next
    case False
    with Suc.prems have "k = Suc n" by simp
    then show ?thesis by simp
  qed
qed

lemma be_bytes_inject_mod: "be_bytes n x = be_bytes n y \<longleftrightarrow> x mod 256 ^ n = y mod 256 ^ n"
proof
  assume "be_bytes n x = be_bytes n y"
  then show "x mod 256 ^ n = y mod 256 ^ n"
    using be_int_be_bytes by metis
next
  assume eq: "x mod 256 ^ n = y mod 256 ^ n"
  have "be_bytes n x = be_bytes n (be_int (be_bytes n x))"
    by (simp add: be_bytes_be_int)
  also have "\<dots> = be_bytes n (be_int (be_bytes n y))"
    by (simp add: be_int_be_bytes eq)
  also have "\<dots> = be_bytes n y"
    by (simp add: be_bytes_be_int)
  finally show "be_bytes n x = be_bytes n y" .
qed

lemma be_int_zero_iff: "be_int bs = 0 \<longleftrightarrow> (\<forall>b \<in> set bs. b = 0)"
proof (induction bs rule: rev_induct)
  case Nil
  then show ?case by simp
next
  case (snoc b bs)
  have "be_int bs * 256 + uint b = 0 \<longleftrightarrow> be_int bs = 0 \<and> uint b = 0"
    using be_int_nonneg [of bs] uint_ge_0 [of b] by linarith
  then show ?case using snoc by (auto simp: uint_0_iff)
qed

subsection \<open>Index and slice expressions\<close>

text \<open>
  \<open>xs[i]\<close> and \<open>xs[lo:hi]\<close> of a Go slice. An index out of range panics (\<open>None\<close>); so does here a
  slice bound beyond the length, which Go only lets pass up to the capacity of the slice.
\<close>

definition elem_at :: "'a list \<Rightarrow> nat \<Rightarrow> 'a option" where
  "elem_at xs i = (if i < length xs then Some (xs ! i) else None)"

definition subslice :: "'a list \<Rightarrow> nat \<Rightarrow> nat \<Rightarrow> 'a list option" where
  "subslice xs lo hi = (if lo \<le> hi \<and> hi \<le> length xs then Some (take (hi - lo) (drop lo xs)) else None)"

lemma elem_at_simps [simp]:
  "i < length xs \<Longrightarrow> elem_at xs i = Some (xs ! i)"
  "\<not> i < length xs \<Longrightarrow> elem_at xs i = None"
  by (simp_all add: elem_at_def)

lemma elem_at_Some_iff: "elem_at xs i = Some x \<longleftrightarrow> i < length xs \<and> xs ! i = x"
  by (auto simp: elem_at_def)

lemma subslice_in_range [simp]:
  "lo \<le> hi \<Longrightarrow> hi \<le> length xs \<Longrightarrow> subslice xs lo hi = Some (take (hi - lo) (drop lo xs))"
  by (simp add: subslice_def)

subsection \<open>Strings\<close>

text \<open>\<open>[]byte(s)\<close> of a Go string.\<close>

definition str_bytes :: "string \<Rightarrow> byte list" where
  "str_bytes s = map of_char s"

text \<open>\<open>strings.Join\<close>.\<close>

fun join :: "string \<Rightarrow> string list \<Rightarrow> string" where
  "join sep [] = []"
| "join sep [x] = x"
| "join sep (x # y # xs) = x @ sep @ join sep (y # xs)"

text \<open>The verbs \<open>%d\<close> on integers and \<open>%s\<close> on \<open>*big.Int\<close>: decimal digits.\<close>

fun show_nat :: "nat \<Rightarrow> string" where
  "show_nat n =
     (if n < 10 then [char_of (48 + n)] else show_nat (n div 10) @ [char_of (48 + n mod 10)])"

declare show_nat.simps [simp del]

definition show_int :: "int \<Rightarrow> string" where
  "show_int x = (if x < 0 then ''-'' @ show_nat (nat (- x)) else show_nat (nat x))"

lemma show_nat_nonempty [simp]: "show_nat n \<noteq> []"
  by (subst show_nat.simps) simp

subsection \<open>Errors and results\<close>

text \<open>
  Go errors. \<open>RPCError\<close> is an error that implements \<open>rpc.Error\<close> (a JSON-RPC error answer, with its
  code and text), \<open>NodeError\<close> is \<open>*simulate.NodeError\<close>, \<open>OtherError\<close> any other error a library or a
  connection returns. \<open>ErrText\<close> is \<open>errors.New\<close>; \<open>Wrapped\<close> is \<open>fmt.Errorf\<close> with the verb \<open>%w\<close>: the
  text before it, the wrapped error and the text after it. \<open>InvalidAddress\<close> is the error of the
  list parser with its line number and line.
\<close>

datatype err =
    RPCError int string
  | OtherError string
  | NodeError string
  | ErrText string
  | Wrapped string err string
  | InvalidAddress nat string

text \<open>\<open>errors.As(err, &rpcErr)\<close> with \<open>var rpcErr rpc.Error\<close>: the first such error of the chain.\<close>

fun as_rpc :: "err \<Rightarrow> (int \<times> string) option" where
  "as_rpc (RPCError code msg) = Some (code, msg)"
| "as_rpc (Wrapped pre e post) = as_rpc e"
| "as_rpc _ = None"

text \<open>\<open>errors.As(err, &nodeErr)\<close> with \<open>var nodeErr *simulate.NodeError\<close>.\<close>

fun as_node :: "err \<Rightarrow> string option" where
  "as_node (NodeError msg) = Some msg"
| "as_node (Wrapped pre e post) = as_node e"
| "as_node _ = None"

text \<open>A call returns a value, returns an error, or panics.\<close>

datatype 'a result = Ok 'a | Err err | Panic

type_synonym ('s, 'a) io = "'s \<Rightarrow> 'a result \<times> 's"

definition ret :: "'a \<Rightarrow> ('s, 'a) io" where
  [io_simps]: "ret x s = (Ok x, s)"

definition throw :: "err \<Rightarrow> ('s, 'a) io" where
  [io_simps]: "throw e s = (Err e, s)"

definition panic :: "('s, 'a) io" where
  [io_simps]: "panic s = (Panic, s)"

definition io_bind :: "('s, 'a) io \<Rightarrow> ('a \<Rightarrow> ('s, 'b) io) \<Rightarrow> ('s, 'b) io" where
  "io_bind m k s =
     (case m s of
        (Ok x, s') \<Rightarrow> k x s'
      | (Err e, s') \<Rightarrow> (Err e, s')
      | (Panic, s') \<Rightarrow> (Panic, s'))"

text \<open>\<open>if err != nil { return ..., wrap(err) }\<close>.\<close>

definition on_err :: "(err \<Rightarrow> err) \<Rightarrow> ('s, 'a) io \<Rightarrow> ('s, 'a) io" where
  "on_err f m s =
     (case m s of
        (Ok x, s') \<Rightarrow> (Ok x, s')
      | (Err e, s') \<Rightarrow> (Err (f e), s')
      | (Panic, s') \<Rightarrow> (Panic, s'))"

text \<open>\<open>v, err := m()\<close>: the error as a value, for code that looks at it.\<close>

definition io_try :: "('s, 'a) io \<Rightarrow> ('s, err + 'a) io" where
  "io_try m s =
     (case m s of
        (Ok x, s') \<Rightarrow> (Ok (Inr x), s')
      | (Err e, s') \<Rightarrow> (Ok (Inl e), s')
      | (Panic, s') \<Rightarrow> (Panic, s'))"

text \<open>A pure computation that may panic (\<open>None\<close>).\<close>

definition or_panic :: "'a option \<Rightarrow> ('s, 'a) io" where
  [io_simps]: "or_panic x s = (case x of Some v \<Rightarrow> (Ok v, s) | None \<Rightarrow> (Panic, s))"

lemma io_bind_Ok_iff:
  "io_bind m k s = (Ok y, t) \<longleftrightarrow> (\<exists>x u. m s = (Ok x, u) \<and> k x u = (Ok y, t))"
  by (auto simp: io_bind_def split: prod.splits result.splits)

lemma io_bind_Err_iff:
  "io_bind m k s = (Err e, t) \<longleftrightarrow>
     m s = (Err e, t) \<or> (\<exists>x u. m s = (Ok x, u) \<and> k x u = (Err e, t))"
  by (auto simp: io_bind_def split: prod.splits result.splits)

lemma io_bind_Panic_iff:
  "io_bind m k s = (Panic, t) \<longleftrightarrow>
     m s = (Panic, t) \<or> (\<exists>x u. m s = (Ok x, u) \<and> k x u = (Panic, t))"
  by (auto simp: io_bind_def split: prod.splits result.splits)

lemma on_err_Ok_iff [simp]: "on_err f m s = (Ok y, t) \<longleftrightarrow> m s = (Ok y, t)"
  by (auto simp: on_err_def split: prod.splits result.splits)

lemma on_err_Err_iff [simp]: "on_err f m s = (Err e, t) \<longleftrightarrow> (\<exists>e'. m s = (Err e', t) \<and> e = f e')"
  by (auto simp: on_err_def split: prod.splits result.splits)

lemma on_err_Panic_iff [simp]: "on_err f m s = (Panic, t) \<longleftrightarrow> m s = (Panic, t)"
  by (auto simp: on_err_def split: prod.splits result.splits)

lemma io_try_iffs [simp]:
  "io_try m s = (Ok (Inr x), t) \<longleftrightarrow> m s = (Ok x, t)"
  "io_try m s = (Ok (Inl e), t) \<longleftrightarrow> m s = (Err e, t)"
  "io_try m s \<noteq> (Err e, t)"
  "io_try m s = (Panic, t) \<longleftrightarrow> m s = (Panic, t)"
  by (auto simp: io_try_def split: prod.splits result.splits)

lemmas io_iffs = io_bind_Ok_iff io_bind_Err_iff io_bind_Panic_iff

lemma ret_iffs [simp]:
  "ret x s = (Ok y, t) \<longleftrightarrow> x = y \<and> s = t"
  "ret x s \<noteq> (Err e, t)"
  "ret x s \<noteq> (Panic, t)"
  by (auto simp: ret_def)

lemma throw_iffs [simp]:
  "throw e s = (Err e', t) \<longleftrightarrow> e = e' \<and> s = t"
  "throw e s \<noteq> (Ok y, t)"
  "throw e s \<noteq> (Panic, t)"
  by (auto simp: throw_def)

lemma or_panic_iffs [simp]:
  "or_panic x s = (Ok y, t) \<longleftrightarrow> x = Some y \<and> s = t"
  "or_panic x s \<noteq> (Err e, t)"
  "or_panic x s = (Panic, t) \<longleftrightarrow> x = None \<and> s = t"
  by (auto simp: or_panic_def split: option.splits)

lemma io_bind_ret [simp]: "io_bind (ret x) k = k x"
  by (rule ext) (simp add: io_bind_def ret_def)

lemma io_bind_throw [simp]: "io_bind (throw e) k = throw e"
  by (rule ext) (simp add: io_bind_def throw_def)

lemma or_panic_Some: "or_panic (Some x) = ret x"
  by (rule ext) (simp add: or_panic_def ret_def)

subsection \<open>Computations that keep an invariant\<close>

text \<open>
  \<open>safe P m Q\<close>: started where \<open>P\<close> holds, \<open>m\<close> does not panic, leaves a state where \<open>P\<close> holds whether
  it succeeds or fails, and a value it returns satisfies \<open>Q\<close>.
\<close>

definition safe :: "('s \<Rightarrow> bool) \<Rightarrow> ('s, 'a) io \<Rightarrow> ('a \<Rightarrow> bool) \<Rightarrow> bool" where
  "safe P m Q \<longleftrightarrow>
     (\<forall>s r t. P s \<longrightarrow> m s = (r, t) \<longrightarrow> P t \<and> r \<noteq> Panic \<and> (\<forall>v. r = Ok v \<longrightarrow> Q v))"

named_theorems safe_intros \<open>rules for \<open>safe\<close>\<close>

lemma safeI:
  assumes "\<And>s v t. P s \<Longrightarrow> m s = (Ok v, t) \<Longrightarrow> P t \<and> Q v"
    and "\<And>s e t. P s \<Longrightarrow> m s = (Err e, t) \<Longrightarrow> P t"
    and "\<And>s t. P s \<Longrightarrow> m s \<noteq> (Panic, t)"
  shows "safe P m Q"
  unfolding safe_def
proof (intro allI impI)
  fix s r t
  assume s: "P s" and m: "m s = (r, t)"
  show "P t \<and> r \<noteq> Panic \<and> (\<forall>v. r = Ok v \<longrightarrow> Q v)"
  proof (cases r)
    case (Ok v)
    with assms(1) [OF s, of v t] m show ?thesis by simp
  next
    case (Err e)
    with assms(2) [OF s, of e t] m show ?thesis by simp
  next
    case Panic
    with assms(3) [OF s, of t] m show ?thesis by simp
  qed
qed

lemma safeD:
  assumes "safe P m Q" and "P s"
  shows "m s = (r, t) \<Longrightarrow> P t" and "m s = (Ok v, t) \<Longrightarrow> Q v" and "m s \<noteq> (Panic, t)"
  using assms by (auto simp: safe_def)

lemma safe_ret [safe_intros]: "Q x \<Longrightarrow> safe P (ret x) Q"
  by (rule safeI) auto

lemma safe_throw [safe_intros]: "safe P (throw e) Q"
  by (rule safeI) auto

lemma safe_on_err [safe_intros]:
  assumes "safe P m Q"
  shows "safe P (on_err f m) Q"
  by (rule safeI) (use assms [unfolded safe_def] in force)+

lemma safe_bind:
  assumes "safe P m Q" and "\<And>x. Q x \<Longrightarrow> safe P (k x) R"
  shows "safe P (io_bind m k) R"
proof (rule safeI)
  fix s v t
  assume "P s" "io_bind m k s = (Ok v, t)"
  then obtain x u where "m s = (Ok x, u)" "k x u = (Ok v, t)" by (auto simp: io_iffs)
  with assms \<open>P s\<close> show "P t \<and> R v" by (meson safeD)
next
  fix s e t
  assume "P s" "io_bind m k s = (Err e, t)"
  then show "P t" using assms by (auto simp: io_iffs) (meson safeD)+
next
  fix s t
  assume "P s"
  then show "io_bind m k s \<noteq> (Panic, t)" using assms by (auto simp: io_iffs) (meson safeD)+
qed

lemma safe_try:
  assumes "safe P m Q"
  shows "safe P (io_try m) (\<lambda>r. case r of Inl e \<Rightarrow> True | Inr v \<Rightarrow> Q v)"
proof (rule safeI)
  fix s v t
  assume "P s" "io_try m s = (Ok v, t)"
  then show "P t \<and> (case v of Inl e \<Rightarrow> True | Inr v \<Rightarrow> Q v)"
    using safeD [OF assms] by (cases v) auto
qed (use safeD(3) [OF assms] in auto)

lemma safe_from_try:
  assumes "safe P (io_try m) (\<lambda>r. case r of Inl e \<Rightarrow> True | Inr v \<Rightarrow> Q v)"
  shows "safe P m Q"
proof (rule safeI)
  fix s v t
  assume "P s" "m s = (Ok v, t)"
  then show "P t \<and> Q v"
    using safeD(1) [OF assms, of s "Ok (Inr v)" t] safeD(2) [OF assms, of s "Inr v" t] by simp
next
  fix s e t
  assume "P s" "m s = (Err e, t)"
  then show "P t" using safeD(1) [OF assms, of s "Ok (Inl e)" t] by simp
next
  fix s t
  assume "P s"
  then show "m s \<noteq> (Panic, t)" using safeD(3) [OF assms, of s t] by simp
qed

lemma safe_weaken: "safe P m Q \<Longrightarrow> (\<And>v. Q v \<Longrightarrow> R v) \<Longrightarrow> safe P m R"
  by (auto simp: safe_def)

lemma safe_conj: "safe P m Q \<Longrightarrow> safe P m R \<Longrightarrow> safe P m (\<lambda>v. Q v \<and> R v)"
  by (auto simp: safe_def)

subsection \<open>The interface of lookups\<close>

text \<open>
  The rules ask for facts about the chain or the sanctions data through Go interfaces
  (\<open>StatusReader\<close>, \<open>FreshnessChecker\<close>, \<open>BalanceReader\<close>, \<open>Checker\<close>). What they rely on: while the
  invariant of the state holds, an answer that is not an error is the true one, a lookup keeps the
  invariant whether or not it succeeds, and it does not panic.
\<close>

locale lookup_service =
  fixes get :: "'k \<Rightarrow> ('s, 'v) io"
    and inv :: "'s \<Rightarrow> bool"
    and truth :: "'k \<Rightarrow> 'v"
  assumes get_safe: "safe inv (get k) (\<lambda>v. v = truth k)"
begin

text \<open>Continuing with the answer of a lookup: only the true answer has to be considered.\<close>

lemma get_bind:
  "safe inv (k (truth x)) Q \<Longrightarrow> safe inv (io_bind (get x) k) Q"
  by (rule safe_bind [OF get_safe]) simp

lemma get_bind_wrapped:
  "safe inv (k (truth x)) Q \<Longrightarrow> safe inv (io_bind (on_err f (get x)) k) Q"
  by (rule safe_bind [OF safe_on_err [OF get_safe]]) simp

text \<open>A lookup of a function of the same fact.\<close>

lemma derived: "lookup_service (\<lambda>x. io_bind (get x) (\<lambda>v. ret (h v))) inv (\<lambda>x. h (truth x))"
  by unfold_locales (rule get_bind, rule safe_ret, rule refl)

end

text \<open>
  The same for a lookup whose truth is not always defined: it then never returns a value. This is
  the contract of the sanctions checkers: where there is no usable answer, they fail.
\<close>

locale partial_lookup =
  fixes get :: "'k \<Rightarrow> ('s, 'v) io"
    and inv :: "'s \<Rightarrow> bool"
    and answer :: "'k \<Rightarrow> 'v option"
  assumes get_answer: "safe inv (get k) (\<lambda>v. answer k = Some v)"
begin

text \<open>Whatever value stands for the undefined truth, a returned value is the truth.\<close>

lemma completed: "lookup_service get inv (\<lambda>k. case answer k of Some v \<Rightarrow> v | None \<Rightarrow> d)"
  by unfold_locales (rule safe_weaken [OF get_answer], simp)

lemma undefined_fails:
  assumes "inv s" and "answer k = None" and "get k s = (r, t)"
  shows "\<exists>e. r = Err e"
  using safeD(2,3) [OF get_answer assms(1), of k] assms(2,3) by (cases r) auto

end

end
