(* ===== verification/Geth.thy ===== *)
theory Geth
  imports Prelude
begin

text \<open>
  The functions of go-ethereum the source calls (packages \<open>common\<close>, \<open>common/hexutil\<close>, \<open>crypto\<close>,
  \<open>core/types\<close>). They are not part of this repository, so they are a parameter: the fields of a
  record \<open>geth\<close> that every definition using them takes as an argument. \<open>bytes_ok\<close>, \<open>hex_ok\<close> and
  \<open>topics_ok\<close> name what go-ethereum documents of them and the firewall relies on;
  \<open>geth_model\<close> is a concrete instance that satisfies them all.
\<close>

text \<open>What the source reads from a \<open>*types.Transaction\<close>, one field per accessor method.\<close>

record transaction =
  Tx_To :: "address option"
  Tx_Gas :: uint64
  Tx_Value :: int
  Tx_Data :: "byte list"
  Tx_Hash :: hash
  Tx_Type :: nat
  Tx_Nonce :: uint64
  Tx_ChainId :: int

record geth =
  Keccak256 :: "byte list \<Rightarrow> byte list"
  Keccak256Hash :: "byte list \<Rightarrow> hash"
  BytesToAddress :: "byte list \<Rightarrow> address"
  BytesToHash :: "byte list \<Rightarrow> hash"
  Address_Bytes :: "address \<Rightarrow> byte list"
  Address_Hex :: "address \<Rightarrow> string"
  Hash_Hex :: "hash \<Rightarrow> string"
  Hash_Big :: "hash \<Rightarrow> int"
  LeftPadBytes :: "byte list \<Rightarrow> nat \<Rightarrow> byte list"
  IsHexAddress :: "string \<Rightarrow> bool"
  HexToAddress :: "string \<Rightarrow> address"
  hexutil_Decode :: "string \<Rightarrow> err + byte list"
  hexutil_Encode :: "byte list \<Rightarrow> string"
  UnmarshalBinary :: "byte list \<Rightarrow> err + transaction"
  Sender :: "int \<Rightarrow> transaction \<Rightarrow> err + address"

text \<open>
  \<open>BytesToAddress\<close> and \<open>BytesToHash\<close> of a slice of exactly the array's length give the array with
  these bytes, \<open>Bytes\<close> is its inverse, \<open>Big\<close> the big-endian value, and \<open>LeftPadBytes\<close> pads with
  zero bytes on the left up to the given length.
\<close>

definition bytes_ok :: "geth \<Rightarrow> bool" where
  "bytes_ok G \<longleftrightarrow>
     (\<forall>bs. length bs = 20 \<longrightarrow> BytesToAddress G bs = word_of_int (be_int bs)) \<and>
     (\<forall>bs. length bs = 32 \<longrightarrow> BytesToHash G bs = word_of_int (be_int bs)) \<and>
     (\<forall>a. Address_Bytes G a = be_bytes 20 (uint a)) \<and>
     (\<forall>h. Hash_Big G h = uint h) \<and>
     (\<forall>bs n. LeftPadBytes G bs n = replicate (n - length bs) 0 @ bs)"

text \<open>
  \<open>Address.Hex\<close> prints \<open>0x\<close> and hexadecimal digits; the result is a hex address that
  \<open>HexToAddress\<close> reads back.
\<close>

definition hex_alphabet :: string where
  "hex_alphabet = ''0123456789abcdefABCDEFx''"

definition hex_ok :: "geth \<Rightarrow> bool" where
  "hex_ok G \<longleftrightarrow>
     (\<forall>a. set (Address_Hex G a) \<subseteq> set hex_alphabet \<and> length (Address_Hex G a) = 42 \<and>
          IsHexAddress G (Address_Hex G a) \<and> HexToAddress G (Address_Hex G a) = a)"

text \<open>The hash function does not collide on the event signatures the firewall recognises.\<close>

definition event_signatures :: "string list" where
  "event_signatures =
     [''Transfer(address,address,uint256)'',
      ''Approval(address,address,uint256)'',
      ''ApprovalForAll(address,address,bool)'',
      ''OwnershipTransferred(address,address)'',
      ''Upgraded(address)'',
      ''AdminChanged(address,address)'',
      ''RoleGranted(bytes32,address,address)'',
      ''FlashLoan(address,address,address,uint256,uint8,uint256,uint16)'',
      ''FlashLoan(address,address,uint256,uint256)'',
      ''Flash(address,address,uint256,uint256,uint256,uint256)'']"

definition topics_ok :: "geth \<Rightarrow> bool" where
  "topics_ok G \<longleftrightarrow> distinct (map (\<lambda>s. Keccak256Hash G (str_bytes s)) event_signatures)"

lemma bytes_okD:
  assumes "bytes_ok G"
  shows "length bs = 20 \<Longrightarrow> BytesToAddress G bs = word_of_int (be_int bs)"
    and "length bs = 32 \<Longrightarrow> BytesToHash G bs = word_of_int (be_int bs)"
    and "Address_Bytes G a = be_bytes 20 (uint a)"
    and "Hash_Big G h = uint h"
    and "LeftPadBytes G bs n = replicate (n - length bs) 0 @ bs"
  using assms by (auto simp: bytes_ok_def)

lemma hex_okD:
  assumes "hex_ok G"
  shows "set (Address_Hex G a) \<subseteq> set hex_alphabet"
    and "length (Address_Hex G a) = 42"
    and "IsHexAddress G (Address_Hex G a)"
    and "HexToAddress G (Address_Hex G a) = a"
  using assms by (auto simp: hex_ok_def)

subsection \<open>A concrete instance\<close>

definition hex_digit :: "nat \<Rightarrow> char" where
  "hex_digit n = (if n < 10 then char_of (48 + n) else char_of (87 + n))"

definition hex_val :: "char \<Rightarrow> nat" where
  "hex_val c =
     (let n = (of_char c :: nat)
      in if 48 \<le> n \<and> n < 58 then n - 48 else if 97 \<le> n \<and> n < 103 then n - 87 else n - 55)"

fun hex_digits :: "nat \<Rightarrow> int \<Rightarrow> string" where
  "hex_digits 0 x = []"
| "hex_digits (Suc n) x = hex_digits n (x div 16) @ [hex_digit (nat (x mod 16))]"

definition hex_int :: "string \<Rightarrow> int" where
  "hex_int s = foldl (\<lambda>acc c. acc * 16 + int (hex_val c)) 0 s"

definition strip_0x :: "string \<Rightarrow> string" where
  "strip_0x s = (if take 2 s = ''0x'' \<or> take 2 s = ''0X'' then drop 2 s else s)"

definition is_hex_char :: "char \<Rightarrow> bool" where
  "is_hex_char c \<longleftrightarrow> c \<in> set ''0123456789abcdefABCDEF''"

definition geth_model :: geth where
  "geth_model =
     \<lparr>Keccak256 = (\<lambda>bs. be_bytes 32 (1000 * int (length bs) + uint (hd (bs @ [0])))),
      Keccak256Hash = (\<lambda>bs. word_of_int (1000 * int (length bs) + uint (hd (bs @ [0])))),
      BytesToAddress = (\<lambda>bs. word_of_int (be_int bs)),
      BytesToHash = (\<lambda>bs. word_of_int (be_int bs)),
      Address_Bytes = (\<lambda>a. be_bytes 20 (uint a)),
      Address_Hex = (\<lambda>a. ''0x'' @ hex_digits 40 (uint a)),
      Hash_Hex = (\<lambda>h. ''0x'' @ hex_digits 64 (uint h)),
      Hash_Big = uint,
      LeftPadBytes = (\<lambda>bs n. replicate (n - length bs) 0 @ bs),
      IsHexAddress = (\<lambda>s. length (strip_0x s) = 40 \<and> list_all is_hex_char (strip_0x s)),
      HexToAddress = (\<lambda>s. word_of_int (hex_int (strip_0x s))),
      hexutil_Decode = (\<lambda>s. Inr (str_bytes s)),
      hexutil_Encode = (\<lambda>bs. concat (map (\<lambda>b. hex_digits 2 (uint b)) bs)),
      UnmarshalBinary = (\<lambda>bs. Inr \<lparr>Tx_To = Some (word_of_int (be_int bs)), Tx_Gas = 21000,
        Tx_Value = 0, Tx_Data = bs, Tx_Hash = word_of_int (be_int bs), Tx_Type = 2,
        Tx_Nonce = 0, Tx_ChainId = 1\<rparr>),
      Sender = (\<lambda>cid tx. Inr 1)\<rparr>"

lemma hex_val_digit: "n < 16 \<Longrightarrow> hex_val (hex_digit n) = n"
  by (auto simp: hex_val_def hex_digit_def Let_def)

lemma hex_digit_alphabet: "n < 16 \<Longrightarrow> hex_digit n \<in> set ''0123456789abcdef''"
proof -
  assume "n < 16"
  then have "n \<in> set [0..<16]" by simp
  moreover have "\<forall>m \<in> set [0..<16]. hex_digit m \<in> set ''0123456789abcdef''"
    by code_simp
  ultimately show ?thesis by blast
qed

lemma set_hex_digits: "set (hex_digits n x) \<subseteq> set ''0123456789abcdef''"
proof (induction n arbitrary: x)
  case 0
  then show ?case by simp
next
  case (Suc n)
  have "hex_digit (nat (x mod 16)) \<in> set ''0123456789abcdef''"
    by (rule hex_digit_alphabet) (simp add: nat_less_iff)
  with Suc [of "x div 16"] show ?case by simp
qed

lemma length_hex_digits [simp]: "length (hex_digits n x) = n"
  by (induction n arbitrary: x) auto

lemma hex_int_digits: "hex_int (hex_digits n x) = x mod 16 ^ n"
proof (induction n arbitrary: x)
  case 0
  then show ?case by (simp add: hex_int_def)
next
  case (Suc n)
  have v: "int (hex_val (hex_digit (nat (x mod 16)))) = x mod 16"
    by (subst hex_val_digit) (auto simp: nat_less_iff)
  have "x mod (16 * 16 ^ n) = 16 * (x div 16 mod 16 ^ n) + x mod 16"
    by (rule zmod_zmult2_eq) simp
  with Suc [of "x div 16"] v show ?case
    by (simp add: hex_int_def)
qed

lemma hex_alphabet_eq: "hex_alphabet = ''0123456789abcdef'' @ ''ABCDEFx''"
  by (simp add: hex_alphabet_def)

lemma hex_chars_eq: "''0123456789abcdefABCDEF'' = ''0123456789abcdef'' @ ''ABCDEF''"
  by simp

lemma geth_model_bytes_ok: "bytes_ok geth_model"
  by (simp add: bytes_ok_def geth_model_def)

lemma geth_model_hex_ok: "hex_ok geth_model"
proof -
  have strip: "strip_0x (CHR ''0'' # CHR ''x'' # s) = s" for s
    by (simp add: strip_0x_def)
  have alpha: "set (hex_digits n x) \<subseteq> set hex_alphabet" for n x
    unfolding hex_alphabet_eq set_append using set_hex_digits [of n x] by (rule le_supI1)
  have hexc: "list_all is_hex_char (hex_digits n x)" for n x
    unfolding list_all_iff is_hex_char_def hex_chars_eq set_append
    using set_hex_digits [of n x] by blast
  have reads: "word_of_int (hex_int (hex_digits 40 (uint a))) = a" for a :: address
  proof -
    have "uint a < 16 ^ 40" using uint_lt2p [of a] by simp
    then show ?thesis by (simp add: hex_int_digits)
  qed
  have "CHR ''0'' \<in> set hex_alphabet" "CHR ''x'' \<in> set hex_alphabet"
    by (simp_all add: hex_alphabet_def)
  then show ?thesis
    using alpha by (simp add: hex_ok_def geth_model_def strip hexc reads)
qed

lemma geth_model_topics_ok: "topics_ok geth_model"
  by (simp add: topics_ok_def event_signatures_def geth_model_def str_bytes_def)

end
