(* ===== verification/Trace.thy ===== *)
theory Trace
  imports Geth
begin

text \<open>
  The data that crosses package borders before any rule runs: a decoded transaction
  (\<open>txdecode.Decoded\<close>) and the call trace of its simulation (\<open>simulate.CallFrame\<close>,
  \<open>simulate.Log\<close>), together with the arguments of \<open>debug_traceCall\<close>.
\<close>

record Decoded =
  Decoded_Tx :: transaction
  Decoded_From :: address

record Log =
  Log_Address :: address
  Log_Topics :: "hash list"
  Log_Data :: "byte list"

text \<open>
  A frame of geth's call tracer. Pointers are options (\<open>To\<close> is nil for a CREATE that failed,
  \<open>Value\<close> where the tracer reports none); \<open>Error\<close> is empty for a frame that did not revert.
\<close>

datatype CallFrame =
  CallFrame (Call_Type: string) (Call_From: address) (Call_To: "address option")
    (Call_Value: "int option") (Call_Gas: uint64) (Call_GasUsed: uint64)
    (Call_Input: "byte list") (Call_Output: "byte list") (Call_Error: string)
    (Call_Logs: "Log list") (Call_Calls: "CallFrame list")

record callArgs =
  callArgs_From :: address
  callArgs_To :: "address option"
  callArgs_Gas :: uint64
  callArgs_Value :: int
  callArgs_Input :: "byte list"

text \<open>The fee fields of the transaction are left out.\<close>

definition newCallArgs :: "Decoded \<Rightarrow> callArgs" where
  "newCallArgs tx =
     \<lparr>callArgs_From = Decoded_From tx,
      callArgs_To = Tx_To (Decoded_Tx tx),
      callArgs_Gas = Tx_Gas (Decoded_Tx tx),
      callArgs_Value = Tx_Value (Decoded_Tx tx),
      callArgs_Input = Tx_Data (Decoded_Tx tx)\<rparr>"

subsection \<open>Live frames\<close>

text \<open>
  The frames whose effects stay: those not inside a reverted frame, in execution order, each with
  its depth below \<open>d\<close>. This is the reference the analysis is measured against.
\<close>

primrec live :: "nat \<Rightarrow> CallFrame \<Rightarrow> (nat \<times> CallFrame) list"
  and live_calls :: "nat \<Rightarrow> CallFrame list \<Rightarrow> (nat \<times> CallFrame) list" where
  "live d (CallFrame ty sender to val gas used inp outp er logs calls) =
     (if er \<noteq> '''' then []
      else (d, CallFrame ty sender to val gas used inp outp er logs calls) # live_calls (Suc d) calls)"
| "live_calls d [] = []"
| "live_calls d (c # cs) = live d c @ live_calls d cs"

lemma live_cases:
  "live d f = (if Call_Error f \<noteq> '''' then [] else (d, f) # live_calls (Suc d) (Call_Calls f))"
  by (cases f) simp

lemma live_calls_concat: "live_calls d cs = concat (map (live d) cs)"
  by (induction cs) auto

lemma live_depth: "(k, f) \<in> set (live d c) \<Longrightarrow> d \<le> k"
  and live_calls_depth: "(k, f) \<in> set (live_calls d cs) \<Longrightarrow> d \<le> k"
proof (induction c and cs arbitrary: d and d rule: live.induct live_calls.induct)
  case (CallFrame ty sender to val gas used inp outp er logs calls)
  then show ?case by (fastforce split: if_splits)
qed auto

lemma live_not_reverted: "(k, f) \<in> set (live d c) \<Longrightarrow> Call_Error f = ''''"
  and live_calls_not_reverted: "(k, f) \<in> set (live_calls d cs) \<Longrightarrow> Call_Error f = ''''"
proof (induction c and cs arbitrary: d and d rule: live.induct live_calls.induct)
  case (CallFrame ty sender to val gas used inp outp er logs calls)
  then show ?case by (fastforce split: if_splits)
qed auto

end
