(* ===== verification/World.thy ===== *)
theory World
  imports Trace
begin

text \<open>
  What the running firewall talks to and what it keeps between requests.

  \<^item> \<open>'e node\<close>: an RPC client (\<open>*rpc.Client\<close> and \<open>*ethclient.Client\<close> of go-ethereum), a parameter.
    Each call may change the outside world \<open>'e\<close> (time passes, the chain grows) and answers a value
    or an error; timeouts are errors.
  \<^item> \<open>'e world\<close>: the mutable fields of the two caches of the program (\<open>CachedFreshness.known\<close> and
    \<open>CachedChecker.entries\<close>) and the outside world.
  \<^item> \<open>serves\<close>: the assumption under which answers can be compared with the truth: while one
    transaction is screened, every answer of the node that is not an error comes from one chain
    state. Any call may still fail. \<open>errors_revert\<close> is assumed besides only of the upstream node,
    whose \<open>eth_call\<close> errors the balance lookup reads as reverts.
\<close>

record 'e node =
  node_BlockNumber :: "'e \<Rightarrow> (err + uint64) \<times> 'e"
  node_CodeAt :: "address \<Rightarrow> int option \<Rightarrow> 'e \<Rightarrow> (err + byte list) \<times> 'e"
  node_BalanceAt :: "address \<Rightarrow> int option \<Rightarrow> 'e \<Rightarrow> (err + int) \<times> 'e"
  node_CallContract :: "address \<Rightarrow> byte list \<Rightarrow> int option \<Rightarrow> 'e \<Rightarrow> (err + byte list) \<times> 'e"
  node_TraceCall :: "callArgs \<Rightarrow> 'e \<Rightarrow> (err + CallFrame) \<times> 'e"

record cacheEntry =
  ce_sanctioned :: bool
  ce_expires :: int

record 'e world =
  w_known :: "address set"
  w_entries :: "address \<rightharpoonup> cacheEntry"
  w_ext :: 'e

text \<open>A call to the outside.\<close>

definition ext_call :: "('e \<Rightarrow> (err + 'a) \<times> 'e) \<Rightarrow> ('e world, 'a) io" where
  "ext_call f w =
     (case f (w_ext w) of
        (Inl e, x) \<Rightarrow> (Err e, w\<lparr>w_ext := x\<rparr>)
      | (Inr v, x) \<Rightarrow> (Ok v, w\<lparr>w_ext := x\<rparr>))"

lemma ext_call_iffs:
  "ext_call f w = (Ok v, t) \<longleftrightarrow> (\<exists>x. f (w_ext w) = (Inr v, x) \<and> t = w\<lparr>w_ext := x\<rparr>)"
  "ext_call f w = (Err e, t) \<longleftrightarrow> (\<exists>x. f (w_ext w) = (Inl e, x) \<and> t = w\<lparr>w_ext := x\<rparr>)"
  "ext_call f w \<noteq> (Panic, t)"
  by (auto simp: ext_call_def split: prod.splits sum.splits)

lemma ext_call_world:
  "ext_call f w = (r, t) \<Longrightarrow> \<exists>y x. f (w_ext w) = (y, x) \<and> t = w\<lparr>w_ext := x\<rparr>"
  by (auto simp: ext_call_def split: prod.splits sum.splits)

text \<open>A chain state: the latest block, and what is stored now (\<open>None\<close>) and at past
  blocks, and what a call returns (\<open>None\<close> when it reverts).\<close>

record chain =
  ch_head :: uint64
  ch_code :: "int option \<Rightarrow> address \<Rightarrow> byte list"
  ch_balance :: "address \<Rightarrow> int"
  ch_call :: "address \<Rightarrow> byte list \<Rightarrow> byte list option"

text \<open>In worlds that satisfy \<open>I\<close>, the call answers \<open>y\<close> or an error, and keeps \<open>I\<close>.\<close>

definition answers :: "('e \<Rightarrow> (err + 'a) \<times> 'e) \<Rightarrow> ('e \<Rightarrow> bool) \<Rightarrow> 'a \<Rightarrow> bool" where
  "answers f I y \<longleftrightarrow> (\<forall>e r x. I e \<longrightarrow> f e = (r, x) \<longrightarrow> I x \<and> (\<forall>v. r = Inr v \<longrightarrow> v = y))"

text \<open>The same for a contract call: an answer is what the call returns. Any call may fail.\<close>

definition answers_call :: "('e \<Rightarrow> (err + 'a) \<times> 'e) \<Rightarrow> ('e \<Rightarrow> bool) \<Rightarrow> 'a option \<Rightarrow> bool" where
  "answers_call f I y \<longleftrightarrow>
     (\<forall>e r x. I e \<longrightarrow> f e = (r, x) \<longrightarrow> I x \<and> (\<forall>v. r = Inr v \<longrightarrow> y = Some v))"

definition serves :: "'e node \<Rightarrow> chain \<Rightarrow> ('e \<Rightarrow> bool) \<Rightarrow> bool" where
  "serves N ch I \<longleftrightarrow>
     answers (node_BlockNumber N) I (ch_head ch) \<and>
     (\<forall>a b. answers (node_CodeAt N a b) I (ch_code ch b a)) \<and>
     (\<forall>a. answers (node_BalanceAt N a None) I (ch_balance ch a)) \<and>
     (\<forall>a data. answers_call (node_CallContract N a data None) I (ch_call ch a data))"

text \<open>
  What \<open>balance.go\<close> relies on besides: the node answers \<open>eth_call\<close> with a JSON-RPC error only when
  the call reverts. A rate limit, for one, breaks it; \<open>Limits\<close> shows what then goes unseen.
\<close>

definition errors_revert :: "'e node \<Rightarrow> chain \<Rightarrow> ('e \<Rightarrow> bool) \<Rightarrow> bool" where
  "errors_revert N ch I \<longleftrightarrow>
     (\<forall>a data e er x. I e \<longrightarrow> node_CallContract N a data None e = (Inl er, x) \<longrightarrow> as_rpc er \<noteq> None \<longrightarrow>
        ch_call ch a data = None)"

lemma ext_call_answers:
  assumes "answers f I y" and "I (w_ext w)" and "ext_call f w = (r, t)"
  shows "I (w_ext t)" and "r = Ok v \<Longrightarrow> v = y"
  using assms by (auto simp: answers_def ext_call_def split: prod.splits sum.splits)

lemma ext_call_caches:
  "ext_call f w = (r, t) \<Longrightarrow> w_known t = w_known w \<and> w_entries t = w_entries w"
  by (auto dest: ext_call_world)

text \<open>Computations that only call the outside, and any invariant that only reads it and the caches.\<close>

lemma safe_ext_call_caches:
  assumes "answers f I y"
  shows "safe (\<lambda>w. I (w_ext w) \<and> C (w_known w) (w_entries w)) (ext_call f) (\<lambda>v. v = y)"
proof (rule safeI)
  fix s :: "'a world" and v t
  assume "I (w_ext s) \<and> C (w_known s) (w_entries s)" "ext_call f s = (Ok v, t)"
  then show "(I (w_ext t) \<and> C (w_known t) (w_entries t)) \<and> v = y"
    using ext_call_answers [OF assms] ext_call_caches by metis
next
  fix s :: "'a world" and e t
  assume "I (w_ext s) \<and> C (w_known s) (w_entries s)" "ext_call f s = (Err e, t)"
  then show "I (w_ext t) \<and> C (w_known t) (w_entries t)"
    using ext_call_answers [OF assms] ext_call_caches by metis
qed (simp add: ext_call_iffs)

lemma safe_ext_call:
  "answers f I y \<Longrightarrow> safe (\<lambda>w. I (w_ext w)) (ext_call f) (\<lambda>v. v = y)"
  using safe_ext_call_caches [of f I y "\<lambda>_ _. True"] by simp

subsection \<open>Computations that only touch the outside\<close>

definition ext_only :: "('e world, 'a) io \<Rightarrow> bool" where
  "ext_only m \<longleftrightarrow> (\<forall>w r t. m w = (r, t) \<longrightarrow> w_known t = w_known w \<and> w_entries t = w_entries w)"

named_theorems ext_only_intros \<open>rules for \<open>ext_only\<close>\<close>

lemma ext_onlyD: "ext_only m \<Longrightarrow> m w = (r, t) \<Longrightarrow> w_known t = w_known w \<and> w_entries t = w_entries w"
  by (simp add: ext_only_def)

lemma ext_only_ret [ext_only_intros]: "ext_only (ret x)"
  by (simp add: ext_only_def ret_def)

lemma ext_only_throw [ext_only_intros]: "ext_only (throw e)"
  by (simp add: ext_only_def throw_def)

lemma ext_only_or_panic [ext_only_intros]: "ext_only (or_panic x)"
  by (auto simp: ext_only_def or_panic_def split: option.splits)

lemma ext_only_call [ext_only_intros]: "ext_only (ext_call f)"
  by (auto simp: ext_only_def dest: ext_call_caches)

lemma ext_only_on_err [ext_only_intros]: "ext_only m \<Longrightarrow> ext_only (on_err f m)"
  by (auto simp: ext_only_def on_err_def split: prod.splits result.splits)

lemma ext_only_bind [ext_only_intros]:
  "ext_only m \<Longrightarrow> (\<And>x. ext_only (k x)) \<Longrightarrow> ext_only (io_bind m k)"
  by (auto simp: ext_only_def io_bind_def split: prod.splits result.splits)

lemma ext_only_try [ext_only_intros]: "ext_only m \<Longrightarrow> ext_only (io_try m)"
  by (auto simp: ext_only_def io_try_def split: prod.splits result.splits)

lemma ext_only_if [ext_only_intros]: "ext_only m \<Longrightarrow> ext_only n \<Longrightarrow> ext_only (if b then m else n)"
  by simp

lemma safe_ext_call_try:
  assumes "\<And>e r x. I e \<Longrightarrow> f e = (r, x) \<Longrightarrow> I x \<and> R r"
  shows "safe (\<lambda>w. I (w_ext w) \<and> C (w_known w) (w_entries w)) (io_try (ext_call f)) R"
proof (rule safeI)
  fix s :: "'a world" and v t
  assume s: "I (w_ext s) \<and> C (w_known s) (w_entries s)" and eq: "io_try (ext_call f) s = (Ok v, t)"
  then obtain x where x: "f (w_ext s) = (v, x)" "t = s\<lparr>w_ext := x\<rparr>"
    by (cases v) (auto simp: ext_call_iffs)
  from assms [OF _ x(1)] s x(2) show "(I (w_ext t) \<and> C (w_known t) (w_entries t)) \<and> R v" by simp
qed (simp_all add: ext_call_iffs)

end
