(* ===== verification/Chainstate.thy ===== *)
theory Chainstate
  imports World
begin

text \<open>
  Package \<open>internal/chainstate\<close>, \<open>chainstate.go\<close>: whether a contract was deployed recently, asked
  from the node (\<open>RPCFreshness\<close>) and remembered for established contracts (\<open>CachedFreshness\<close>). Both
  are shown to be lookup services for the age of an address' code.
\<close>

datatype Status = NoCode | Fresh | Established

subsection \<open>RPCFreshness\<close>

record 'e RPCFreshness =
  rf_reader :: "'e node"
  rf_window :: uint64

definition pastBlock :: "'e RPCFreshness \<Rightarrow> ('e world, int) io" where
  "pastBlock c =
     io_bind (on_err (\<lambda>e. Wrapped ''latest block: '' e '''') (ext_call (node_BlockNumber (rf_reader c))))
       (\<lambda>latest. if latest < rf_window c then ret 0 else ret (uint (latest - rf_window c)))"

definition RPCFreshness_Status :: "geth \<Rightarrow> 'e RPCFreshness \<Rightarrow> address \<Rightarrow> ('e world, Status) io" where
  "RPCFreshness_Status G c addr =
     io_bind (on_err (\<lambda>e. Wrapped (''code of '' @ Address_Hex G addr @ '': '') e '''')
        (ext_call (node_CodeAt (rf_reader c) addr None)))
       (\<lambda>code.
          if length code = 0 then ret NoCode
          else io_bind (pastBlock c)
            (\<lambda>past. io_bind
               (on_err (\<lambda>e. Wrapped (''code of '' @ Address_Hex G addr @ '' at block '' @ show_int past @ '': '') e '''')
                  (ext_call (node_CodeAt (rf_reader c) addr (Some past))))
               (\<lambda>oldCode. if length oldCode = 0 then ret Fresh else ret Established)))"

definition RPCFreshness_IsFreshContract :: "geth \<Rightarrow> 'e RPCFreshness \<Rightarrow> address \<Rightarrow> ('e world, bool) io" where
  "RPCFreshness_IsFreshContract G c addr =
     io_bind (RPCFreshness_Status G c addr) (\<lambda>s. ret (s = Fresh))"

definition RPCFreshness_Verify :: "'e RPCFreshness \<Rightarrow> ('e world, unit) io" where
  "RPCFreshness_Verify c =
     io_bind (pastBlock c)
       (\<lambda>past. io_bind
          (on_err (\<lambda>e. Wrapped (''node cannot read state at block '' @ show_int past @ '' ('' @
               show_nat (unat (rf_window c)) @
               '' blocks back); use an archive node or a smaller window: '') e '''')
             (ext_call (node_CodeAt (rf_reader c) 0 (Some past))))
          (\<lambda>_. ret ()))"

subsection \<open>CachedFreshness\<close>

text \<open>The field \<open>known\<close> lives in the world; the mutex is held while it is read and while it is written.\<close>

record 'e CachedFreshness =
  cf_next :: "address \<Rightarrow> ('e world, Status) io"
  cf_maxEntries :: int

definition NewCachedFreshness ::
  "(address \<Rightarrow> ('e world, Status) io) \<Rightarrow> int \<Rightarrow> err + 'e CachedFreshness" where
  "NewCachedFreshness nxt maxEntries =
     (if maxEntries \<le> 0 then Inl (ErrText ''freshness cache size must be positive'')
      else Inr \<lparr>cf_next = nxt, cf_maxEntries = maxEntries\<rparr>)"

definition remember_known :: "'e CachedFreshness \<Rightarrow> address \<Rightarrow> 'e world \<Rightarrow> 'e world" where
  "remember_known c addr w =
     (let known = (if int (card (w_known w)) \<ge> cf_maxEntries c then {} else w_known w)
      in w\<lparr>w_known := insert addr known\<rparr>)"

definition CachedFreshness_Status :: "'e CachedFreshness \<Rightarrow> address \<Rightarrow> ('e world, Status) io" where
  "CachedFreshness_Status c addr w =
     (if addr \<in> w_known w then (Ok Established, w)
      else io_bind (cf_next c addr)
        (\<lambda>s w'. if s \<noteq> Established then (Ok s, w')
                else (Ok Established, remember_known c addr w')) w)"

definition CachedFreshness_IsFreshContract :: "'e CachedFreshness \<Rightarrow> address \<Rightarrow> ('e world, bool) io" where
  "CachedFreshness_IsFreshContract c addr =
     io_bind (CachedFreshness_Status c addr) (\<lambda>s. ret (s = Fresh))"

subsection \<open>Reference\<close>

definition past_of :: "uint64 \<Rightarrow> uint64 \<Rightarrow> int" where
  "past_of latest window = max 0 (uint latest - uint window)"

definition status_of :: "chain \<Rightarrow> uint64 \<Rightarrow> address \<Rightarrow> Status" where
  "status_of ch window a =
     (if ch_code ch None a = [] then NoCode
      else if ch_code ch (Some (past_of (ch_head ch) window)) a = [] then Fresh
      else Established)"

lemma sub_no_wrap: "\<not> latest < window \<Longrightarrow> uint (latest - window) = past_of latest window"
  using uint_minus_simple_alt [of window latest]
  by (simp add: past_of_def not_less word_le_def)

lemma past_zero: "latest < window \<Longrightarrow> past_of latest window = 0"
  by (simp add: past_of_def word_less_def)

lemma pastBlock_Ok:
  "pastBlock c w = (Ok p, t) \<longleftrightarrow>
     (\<exists>latest. ext_call (node_BlockNumber (rf_reader c)) w = (Ok latest, t) \<and>
        p = past_of latest (rf_window c))"
  unfolding pastBlock_def io_bind_Ok_iff on_err_Ok_iff
  by (rule iffI; elim exE conjE; auto simp: sub_no_wrap past_zero split: if_splits)

lemma pastBlock_no_panic: "pastBlock c w \<noteq> (Panic, t)"
  by (auto simp: pastBlock_def io_bind_Panic_iff ext_call_iffs split: if_splits)

subsection \<open>RPCFreshness is a lookup service\<close>

text \<open>The node serves the chain \<open>ch\<close>, and \<open>C\<close> holds of the caches (which the lookup does not touch).\<close>

definition rf_inv ::
  "'e RPCFreshness \<Rightarrow> chain \<Rightarrow> ('e \<Rightarrow> bool) \<Rightarrow> (address set \<Rightarrow> (address \<rightharpoonup> cacheEntry) \<Rightarrow> bool) \<Rightarrow>
   'e world \<Rightarrow> bool" where
  "rf_inv c ch I C w \<longleftrightarrow>
     serves (rf_reader c) ch I \<and> I (w_ext w) \<and> C (w_known w) (w_entries w)"

lemma safe_served:
  assumes "serves (rf_reader c) ch I \<Longrightarrow> answers f I y"
  shows "safe (rf_inv c ch I C) (ext_call f) (\<lambda>v. v = y)"
proof (cases "serves (rf_reader c) ch I")
  case True
  then show ?thesis
    using safe_ext_call_caches [OF assms, of C] by (simp add: rf_inv_def [abs_def])
next
  case False
  then show ?thesis by (simp add: safe_def rf_inv_def)
qed

lemma safe_pastBlock:
  "safe (rf_inv c ch I C) (pastBlock c) (\<lambda>p. p = past_of (ch_head ch) (rf_window c))"
  unfolding pastBlock_def
proof (rule safe_bind)
  show "safe (rf_inv c ch I C)
      (on_err (\<lambda>e. Wrapped ''latest block: '' e '''') (ext_call (node_BlockNumber (rf_reader c))))
      (\<lambda>v. v = ch_head ch)"
    by (intro safe_on_err safe_served) (simp add: serves_def)
qed (auto intro!: safe_ret simp: sub_no_wrap past_zero)

lemma safe_served_try:
  assumes "\<And>e r x. serves (rf_reader c) ch I \<Longrightarrow> H \<Longrightarrow> I e \<Longrightarrow> f e = (r, x) \<Longrightarrow> I x \<and> R r"
  shows "safe (rf_inv c ch I (\<lambda>k E. H \<and> C k E)) (io_try (ext_call f)) R"
proof (cases "serves (rf_reader c) ch I \<and> H")
  case True
  then have "rf_inv c ch I (\<lambda>k E. H \<and> C k E) = (\<lambda>w. I (w_ext w) \<and> C (w_known w) (w_entries w))"
    by (simp add: rf_inv_def fun_eq_iff)
  then show ?thesis
    using safe_ext_call_try [of I f R C, OF assms] True by simp
next
  case False
  then show ?thesis by (auto simp: safe_def rf_inv_def)
qed

interpretation rf: lookup_service "RPCFreshness_Status G c" "rf_inv c ch I C" "status_of ch (rf_window c)"
  for G c ch I C
proof unfold_locales
  fix addr
  have code: "safe (rf_inv c ch I C) (on_err h (ext_call (node_CodeAt (rf_reader c) addr b)))
      (\<lambda>v. v = ch_code ch b addr)" for b h
    by (intro safe_on_err safe_served) (simp add: serves_def)
  show "safe (rf_inv c ch I C) (RPCFreshness_Status G c addr) (\<lambda>v. v = status_of ch (rf_window c) addr)"
    unfolding RPCFreshness_Status_def
    by (rule safe_bind [OF code], simp, intro conjI impI safe_ret)
      (auto simp: status_of_def intro!: safe_bind [OF safe_pastBlock] safe_bind [OF code] safe_ret)
qed

interpretation rf_fresh: lookup_service "RPCFreshness_IsFreshContract G c" "rf_inv c ch I C"
  "\<lambda>a. status_of ch (rf_window c) a = Fresh" for G c ch I C
  unfolding RPCFreshness_IsFreshContract_def [abs_def]
  by (rule rf.derived [where h = "\<lambda>s. s = Fresh"])

subsection \<open>The cache over any status reader\<close>

text \<open>
  What the cache needs of the reader below it: a lookup service whose invariant does not mention
  the cache, and that does not write to it.
\<close>

locale cached_reader = lookup_service nxt inv truth
  for nxt :: "address \<Rightarrow> ('e world, Status) io" and inv :: "'e world \<Rightarrow> bool"
    and truth :: "address \<Rightarrow> Status" +
  fixes m :: int
  assumes inv_known: "inv (w\<lparr>w_known := K\<rparr>) \<longleftrightarrow> inv w"
    and nxt_known: "nxt a w = (r, t) \<Longrightarrow> w_known t = w_known w"
begin

abbreviation cache :: "'e CachedFreshness" where
  "cache \<equiv> \<lparr>cf_next = nxt, cf_maxEntries = m\<rparr>"

lemma cached_safe:
  "safe (\<lambda>w. inv w \<and> (\<forall>a \<in> w_known w. truth a = Established)) (CachedFreshness_Status cache addr)
     (\<lambda>s. s = truth addr)"
proof (rule safeI)
  fix w s t
  assume w: "inv w \<and> (\<forall>a \<in> w_known w. truth a = Established)"
    and ok: "CachedFreshness_Status cache addr w = (Ok s, t)"
  show "(inv t \<and> (\<forall>a \<in> w_known t. truth a = Established)) \<and> s = truth addr"
  proof (cases "addr \<in> w_known w")
    case True
    with w ok show ?thesis by (simp add: CachedFreshness_Status_def)
  next
    case False
    with ok obtain s' u where u: "nxt addr w = (Ok s', u)"
      "(if s' \<noteq> Established then (Ok s', u) else (Ok Established, remember_known cache addr u)) = (Ok s, t)"
      by (auto simp: CachedFreshness_Status_def io_bind_Ok_iff)
    have "inv u" "s' = truth addr" using safeD [OF get_safe, of w addr] w u(1) by auto
    with w u nxt_known [OF u(1)] show ?thesis
      by (auto simp: remember_known_def Let_def inv_known split: if_splits)
  qed
next
  fix w e t
  assume w: "inv w \<and> (\<forall>a \<in> w_known w. truth a = Established)"
    and er: "CachedFreshness_Status cache addr w = (Err e, t)"
  then have "nxt addr w = (Err e, t)"
    by (auto simp: CachedFreshness_Status_def io_bind_Err_iff split: if_splits)
  with w show "inv t \<and> (\<forall>a \<in> w_known t. truth a = Established)"
    using safeD [OF get_safe, of w addr] nxt_known [of addr w] by metis
next
  fix w t
  assume "inv w \<and> (\<forall>a \<in> w_known w. truth a = Established)"
  then show "CachedFreshness_Status cache addr w \<noteq> (Panic, t)"
    using safeD(3) [OF get_safe, of w addr]
    by (auto simp: CachedFreshness_Status_def io_bind_Panic_iff split: if_splits)
qed

text \<open>The cache never holds more than \<open>m\<close> addresses.\<close>

lemma cached_bounded:
  assumes "0 < m" and "finite (w_known w)" and "int (card (w_known w)) \<le> m"
    and "CachedFreshness_Status cache addr w = (r, t)"
  shows "finite (w_known t) \<and> int (card (w_known t)) \<le> m"
proof -
  obtain q u where u: "nxt addr w = (q, u)" by (cases "nxt addr w")
  have "finite (w_known u) \<and> int (card (w_known u)) \<le> m"
    using assms(2,3) nxt_known [OF u] by simp
  moreover have "addr \<in> w_known w \<Longrightarrow> t = w"
    using assms(4) by (simp add: CachedFreshness_Status_def)
  ultimately show ?thesis
    using assms u
    by (cases "addr \<in> w_known w"; cases q)
      (auto simp: CachedFreshness_Status_def io_bind_def remember_known_def Let_def card_insert_if
        split: if_splits)
qed

end

sublocale cached_reader \<subseteq> cached: lookup_service
  "CachedFreshness_Status cache" "\<lambda>w. inv w \<and> (\<forall>a \<in> w_known w. truth a = Established)" truth
  by unfold_locales (rule cached_safe)

subsection \<open>The cache over the node\<close>

lemma ext_only_Status [ext_only_intros]: "ext_only (RPCFreshness_Status G c addr)"
  unfolding RPCFreshness_Status_def pastBlock_def by (intro ext_only_intros)

interpretation cf: cached_reader "RPCFreshness_Status G c" "rf_inv c ch I (\<lambda>_. D)"
  "status_of ch (rf_window c)" m for G c ch I D m
  by unfold_locales (auto simp: rf_inv_def dest: ext_onlyD [OF ext_only_Status])

interpretation cf_fresh: lookup_service
  "CachedFreshness_IsFreshContract \<lparr>cf_next = RPCFreshness_Status G c, cf_maxEntries = m\<rparr>"
  "\<lambda>w. rf_inv c ch I (\<lambda>_. D) w \<and> (\<forall>a \<in> w_known w. status_of ch (rf_window c) a = Established)"
  "\<lambda>a. status_of ch (rf_window c) a = Fresh" for G c ch I D m
  unfolding CachedFreshness_IsFreshContract_def [abs_def]
  by (rule cf.cached.derived [where h = "\<lambda>s. s = Fresh"])

text \<open>A node that serves a chain and never fails, for examples.\<close>

definition chain_node :: "chain \<Rightarrow> unit node" where
  "chain_node ch =
     \<lparr>node_BlockNumber = (\<lambda>e. (Inr (ch_head ch), e)),
      node_CodeAt = (\<lambda>a b e. (Inr (ch_code ch b a), e)),
      node_BalanceAt = (\<lambda>a b e. (Inr (ch_balance ch a), e)),
      node_CallContract = (\<lambda>a data b e.
        (case ch_call ch a data of None \<Rightarrow> Inl (RPCError 3 ''execution reverted'') | Some v \<Rightarrow> Inr v, e)),
      node_TraceCall = (\<lambda>args e. (Inl (OtherError ''unavailable''), e))\<rparr>"

lemma chain_node_serves: "serves (chain_node ch) ch (\<lambda>_. True)"
  by (auto simp: serves_def answers_def answers_call_def chain_node_def split: option.splits)

lemma chain_node_errors: "errors_revert (chain_node ch) ch (\<lambda>_. True)"
  by (auto simp: errors_revert_def chain_node_def split: option.splits)

text \<open>Block 10000; address 2 has code since genesis, address 7 only since recently.\<close>

definition example_chain :: chain where
  "example_chain =
     \<lparr>ch_head = 10000,
      ch_code = (\<lambda>b a. if a = 2 \<or> a = 7 \<and> b = None then [1] else []),
      ch_balance = (\<lambda>a. if a = 2 then 1000 else 0),
      ch_call = (\<lambda>a data. Some (be_bytes 32 100))\<rparr>"

definition example_world :: "unit world" where
  "example_world = \<lparr>w_known = {}, w_entries = Map.empty, w_ext = ()\<rparr>"

definition example_reader :: "unit RPCFreshness" where
  "example_reader = \<lparr>rf_reader = chain_node example_chain, rf_window = 7200\<rparr>"

text \<open>
  C20. While the node answers from one chain state, an age lookup that succeeds gives the age of
  the address' code: no code now, code now but none \<open>window\<close> blocks ago (or at genesis on a younger
  chain, without the block number wrapping around), or code at both blocks. It never panics.
\<close>

theorem RPCFreshness_Status_correct:
  assumes "serves (rf_reader c) ch I" and "I (w_ext w)" and "RPCFreshness_Status G c addr w = (r, t)"
  shows "r = Ok (status_of ch (rf_window c) addr) \<or> (\<exists>e. r = Err e)"
proof -
  have w: "rf_inv c ch I (\<lambda>_ _. True) w" using assms by (simp add: rf_inv_def)
  show ?thesis
    using safeD(2,3) [OF rf.get_safe w, of G addr] assms(3) by (cases r) auto
qed

theorem RPCFreshness_Status_correct_witness:
  "\<exists>t. RPCFreshness_Status geth_model example_reader 7 example_world = (Ok Fresh, t)"
proof -
  obtain r t where rt: "RPCFreshness_Status geth_model example_reader 7 example_world = (r, t)"
    by (cases "RPCFreshness_Status geth_model example_reader 7 example_world")
  have "serves (rf_reader example_reader) example_chain (\<lambda>_. True)"
    by (simp add: example_reader_def chain_node_serves)
  from RPCFreshness_Status_correct [OF this _ rt] have
    "r = Ok (status_of example_chain 7200 7) \<or> (\<exists>e. r = Err e)"
    by (simp add: example_reader_def)
  moreover have "\<nexists>e. r = Err e"
    using rt by (auto simp: RPCFreshness_Status_def pastBlock_def io_bind_def on_err_def ext_call_def
        example_reader_def chain_node_def ret_def example_chain_def split: if_splits)
  ultimately show ?thesis
    using rt by (simp add: status_of_def example_chain_def)
qed

text \<open>
  C19. The freshness cache is transparent: while the remembered addresses are established ones, a
  cached lookup gives the same answer the chain gives, keeps only established addresses, and a
  failed lookup leaves what is remembered untouched.
\<close>

theorem CachedFreshness_transparent:
  assumes "serves (rf_reader c) ch I" and "I (w_ext w)"
    and "\<forall>a \<in> w_known w. status_of ch (rf_window c) a = Established"
    and "CachedFreshness_Status \<lparr>cf_next = RPCFreshness_Status G c, cf_maxEntries = m\<rparr> addr w = (r, t)"
  shows "(\<forall>a \<in> w_known t. status_of ch (rf_window c) a = Established) \<and>
         (r = Ok (status_of ch (rf_window c) addr) \<or> (\<exists>e. r = Err e \<and> w_known t = w_known w))"
proof -
  let ?P = "\<lambda>w. rf_inv c ch I (\<lambda>_ _. True) w \<and> (\<forall>a \<in> w_known w. status_of ch (rf_window c) a = Established)"
  have w: "?P w" using assms by (simp add: rf_inv_def)
  have "safe ?P (CachedFreshness_Status \<lparr>cf_next = RPCFreshness_Status G c, cf_maxEntries = m\<rparr> addr)
      (\<lambda>s. s = status_of ch (rf_window c) addr)"
    by (rule cf.cached.get_safe)
  note s = safeD [OF this w]
  have "w_known t = w_known w" if "r = Err e" for e
    using assms(4) that ext_onlyD [OF ext_only_Status [of G c addr], of w "Err e" t]
    by (auto simp: CachedFreshness_Status_def io_bind_Err_iff split: if_splits)
  then show ?thesis
    using s(1) [OF assms(4)] s(2,3) assms(4) by (cases r) auto
qed

theorem CachedFreshness_transparent_witness:
  "\<exists>r t. CachedFreshness_Status \<lparr>cf_next = RPCFreshness_Status geth_model example_reader,
       cf_maxEntries = 100\<rparr> 2 (example_world\<lparr>w_known := {2}\<rparr>) = (r, t) \<and>
     r = Ok (status_of example_chain 7200 2)"
proof -
  let ?c = "\<lparr>cf_next = RPCFreshness_Status geth_model example_reader, cf_maxEntries = 100\<rparr>"
  let ?w = "example_world\<lparr>w_known := {2}\<rparr>"
  have rt: "CachedFreshness_Status ?c 2 ?w = (Ok Established, ?w)"
    by (simp add: CachedFreshness_Status_def)
  have "serves (rf_reader example_reader) example_chain (\<lambda>_. True)"
    by (simp add: example_reader_def chain_node_serves)
  moreover have "\<forall>a \<in> w_known ?w. status_of example_chain (rf_window example_reader) a = Established"
    by (simp add: status_of_def example_chain_def)
  ultimately have "Ok Established = Ok (status_of example_chain (rf_window example_reader) 2) \<or>
      (\<exists>e. Ok Established = Err e \<and> w_known ?w = w_known ?w)"
    using CachedFreshness_transparent [OF _ _ _ rt] by blast
  with rt show ?thesis by (simp add: example_reader_def)
qed

text \<open>
  The freshness cache is bounded: built with a positive size, it never remembers more than that
  many addresses, whatever the node answers.
\<close>

lemma CachedFreshness_bounded:
  assumes "NewCachedFreshness (RPCFreshness_Status G rf) m = Inr c"
    and "finite (w_known w)" and "int (card (w_known w)) \<le> m"
    and "CachedFreshness_Status c addr w = (r, t)"
  shows "finite (w_known t) \<and> int (card (w_known t)) \<le> m"
proof -
  from assms(1) have "0 < m" "c = \<lparr>cf_next = RPCFreshness_Status G rf, cf_maxEntries = m\<rparr>"
    by (auto simp: NewCachedFreshness_def split: if_splits)
  with cf.cached_bounded [of m w G rf addr r t] assms show ?thesis by simp
qed

lemma CachedFreshness_bounded_witness:
  "\<exists>c r t. NewCachedFreshness (RPCFreshness_Status geth_model example_reader) 1 = Inr c \<and>
     CachedFreshness_Status c 2 example_world = (r, t) \<and> int (card (w_known t)) \<le> 1"
proof -
  let ?c = "\<lparr>cf_next = RPCFreshness_Status geth_model example_reader, cf_maxEntries = 1\<rparr>"
  obtain r t where rt: "CachedFreshness_Status ?c 2 example_world = (r, t)"
    by (cases "CachedFreshness_Status ?c 2 example_world")
  have n: "NewCachedFreshness (RPCFreshness_Status geth_model example_reader) 1 = Inr ?c"
    by (simp add: NewCachedFreshness_def)
  from CachedFreshness_bounded [OF n _ _ rt] n rt show ?thesis
    by (auto simp: example_world_def)
qed

end
