(* ===== verification/Balance.thy ===== *)
theory Balance
  imports Chainstate
begin

text \<open>
  Package \<open>internal/chainstate\<close>, \<open>balance.go\<close>: what a holder owns before the transaction, ETH or an
  ERC-20 token. \<open>Some\<close> is a balance, \<open>None\<close> is \<open>ok = false\<close> (no usable \<open>balanceOf\<close>).
\<close>

definition balanceOfSelector :: "geth \<Rightarrow> byte list" where
  "balanceOfSelector G = take 4 (Keccak256 G (str_bytes ''balanceOf(address)''))"

definition balanceOf_calldata :: "geth \<Rightarrow> address \<Rightarrow> byte list" where
  "balanceOf_calldata G holder =
     [] @ balanceOfSelector G @ LeftPadBytes G (Address_Bytes G holder) 32"

definition RPCBalances_Balance ::
  "geth \<Rightarrow> 'e node \<Rightarrow> address \<Rightarrow> address \<Rightarrow> ('e world, int option) io" where
  "RPCBalances_Balance G client asset holder =
     (if asset = 0 then
        io_bind (on_err (\<lambda>e. Wrapped (''ETH balance of '' @ Address_Hex G holder @ '': '') e '''')
           (ext_call (node_BalanceAt client holder None)))
          (\<lambda>bal. ret (Some bal))
      else
        io_bind (io_try (ext_call (node_CallContract client asset (balanceOf_calldata G holder) None)))
          (\<lambda>r. case r of
             Inl e \<Rightarrow>
               if as_rpc e \<noteq> None then ret None
               else throw (Wrapped (''balance of '' @ Address_Hex G holder @ '' in '' @
                      Address_Hex G asset @ '': '') e '''')
           | Inr out \<Rightarrow> if length out \<noteq> 32 then ret None else ret (Some (be_int out))))"

subsection \<open>Reference\<close>

definition balance_of :: "geth \<Rightarrow> chain \<Rightarrow> address \<times> address \<Rightarrow> int option" where
  "balance_of G ch k =
     (case k of (asset, holder) \<Rightarrow>
        if asset = 0 then Some (ch_balance ch holder)
        else case ch_call ch asset (balanceOf_calldata G holder) of
          None \<Rightarrow> None
        | Some out \<Rightarrow> if length out = 32 then Some (be_int out) else None)"

lemma ext_only_Balance [ext_only_intros]: "ext_only (RPCBalances_Balance G N asset holder)"
  unfolding RPCBalances_Balance_def
  by (auto intro!: ext_only_intros split: sum.split)

text \<open>
  The invariant includes \<open>errors_revert\<close>: only then does \<open>ok = false\<close> on a JSON-RPC error say
  something about the token.
\<close>

interpretation rb: lookup_service "\<lambda>k. RPCBalances_Balance G (rf_reader c) (fst k) (snd k)"
  "rf_inv c ch I (\<lambda>k E. errors_revert (rf_reader c) ch I \<and> C k E)" "balance_of G ch" for G c ch I C
proof unfold_locales
  fix k :: "address \<times> address"
  let ?inv = "rf_inv c ch I (\<lambda>k E. errors_revert (rf_reader c) ch I \<and> C k E)"
  obtain asset holder where k: "k = (asset, holder)" by (cases k)
  have eth: "safe ?inv (on_err h (ext_call (node_BalanceAt (rf_reader c) holder None)))
      (\<lambda>v. v = ch_balance ch holder)" for h
    by (intro safe_on_err safe_served) (simp add: serves_def)
  have tok: "safe ?inv
      (io_try (ext_call (node_CallContract (rf_reader c) asset (balanceOf_calldata G holder) None)))
      (\<lambda>r. case r of Inl e \<Rightarrow> as_rpc e \<noteq> None \<longrightarrow> ch_call ch asset (balanceOf_calldata G holder) = None
          | Inr v \<Rightarrow> ch_call ch asset (balanceOf_calldata G holder) = Some v)"
    by (rule safe_served_try)
      (auto simp: serves_def answers_call_def errors_revert_def split: sum.split)
  show "safe ?inv (RPCBalances_Balance G (rf_reader c) (fst k) (snd k)) (\<lambda>v. v = balance_of G ch k)"
  proof (cases "asset = 0")
    case True
    then show ?thesis
      by (auto simp: RPCBalances_Balance_def k balance_of_def intro!: safe_bind [OF eth] safe_ret)
  next
    case False
    then show ?thesis
      unfolding RPCBalances_Balance_def k
      by (auto simp: balance_of_def intro!: safe_bind [OF tok] safe_ret safe_throw split: sum.split)
  qed
qed

end
