(* ===== verification/Sanctions.thy ===== *)
theory Sanctions
  imports Balance
begin

text \<open>
  Package \<open>internal/sanctions\<close>: the list checker and its file format (\<open>sanctions.go\<close>), the
  combination of checkers (\<open>any.go\<close>) and the on-chain oracle (\<open>oracle.go\<close>). The answer cache
  (\<open>cache.go\<close>) is in the theory \<open>SanctionsCache\<close>. A Go \<open>Checker\<close> is a function from addresses to
  computations.
\<close>

type_synonym 's Checker = "address \<Rightarrow> ('s, bool) io"

subsection \<open>ListChecker\<close>

record ListChecker =
  lc_set :: "address set"

definition NewListChecker :: "address list \<Rightarrow> ListChecker" where
  "NewListChecker addrs = \<lparr>lc_set = fold insert addrs {}\<rparr>"

definition ListChecker_IsSanctioned :: "ListChecker \<Rightarrow> 's Checker" where
  "ListChecker_IsSanctioned c addr = ret (addr \<in> lc_set c)"

definition ListChecker_Len :: "ListChecker \<Rightarrow> nat" where
  "ListChecker_Len c = card (lc_set c)"

subsection \<open>The list file\<close>

text \<open>
  \<open>bufio.Scanner\<close> with its default split function: the text is cut at newlines, a carriage return
  before the newline is dropped, a last line needs no newline. A line of \<open>MaxScanTokenSize\<close> bytes or
  more does not fit the buffer, and scanning stops there with an error.
\<close>

definition MaxScanTokenSize :: nat where
  "MaxScanTokenSize = 65536"

definition dropCR :: "string \<Rightarrow> string" where
  "dropCR s = (if s \<noteq> [] \<and> last s = CHR 0x0D then butlast s else s)"

definition newline :: char where
  "newline = CHR 0x0A"

fun raw_lines :: "string \<Rightarrow> string \<Rightarrow> string list" where
  "raw_lines acc [] = (if acc = [] then [] else [rev acc])"
| "raw_lines acc (c # s) = (if c = newline then rev acc # raw_lines [] s else raw_lines (c # acc) s)"

definition scan_tokens :: "string \<Rightarrow> string list" where
  "scan_tokens s = map dropCR (takeWhile (\<lambda>l. length l < MaxScanTokenSize) (raw_lines [] s))"

definition scan_too_long :: "string \<Rightarrow> bool" where
  "scan_too_long s = list_ex (\<lambda>l. length l \<ge> MaxScanTokenSize) (raw_lines [] s)"

text \<open>The first result of \<open>strings.Cut(s, "#")\<close>.\<close>

definition cut_hash :: "string \<Rightarrow> string" where
  "cut_hash s = takeWhile (\<lambda>c. c \<noteq> CHR ''#'') s"

text \<open>
  \<open>strings.TrimSpace\<close>: the characters \<open>unicode.IsSpace\<close> accepts, in UTF-8: tab, newline, vertical
  tab, form feed, carriage return, space, U+0085, U+00A0, U+1680, U+2000 to U+200A, U+2028, U+2029,
  U+202F, U+205F and U+3000.
\<close>

definition spaces :: "string list" where
  "spaces =
     [[CHR 0x09], [CHR 0x0A], [CHR 0x0B], [CHR 0x0C], [CHR 0x0D], [CHR 0x20],
      [CHR 0xC2, CHR 0x85], [CHR 0xC2, CHR 0xA0], [CHR 0xE1, CHR 0x9A, CHR 0x80],
      [CHR 0xE2, CHR 0x80, CHR 0x80], [CHR 0xE2, CHR 0x80, CHR 0x81],
      [CHR 0xE2, CHR 0x80, CHR 0x82], [CHR 0xE2, CHR 0x80, CHR 0x83],
      [CHR 0xE2, CHR 0x80, CHR 0x84], [CHR 0xE2, CHR 0x80, CHR 0x85],
      [CHR 0xE2, CHR 0x80, CHR 0x86], [CHR 0xE2, CHR 0x80, CHR 0x87],
      [CHR 0xE2, CHR 0x80, CHR 0x88], [CHR 0xE2, CHR 0x80, CHR 0x89],
      [CHR 0xE2, CHR 0x80, CHR 0x8A], [CHR 0xE2, CHR 0x80, CHR 0xA8],
      [CHR 0xE2, CHR 0x80, CHR 0xA9], [CHR 0xE2, CHR 0x80, CHR 0xAF],
      [CHR 0xE2, CHR 0x81, CHR 0x9F], [CHR 0xE3, CHR 0x80, CHR 0x80]]"

definition has_prefix :: "string \<Rightarrow> string \<Rightarrow> bool" where
  "has_prefix p s \<longleftrightarrow> p \<noteq> [] \<and> take (length p) s = p"

function trim_start :: "string list \<Rightarrow> string \<Rightarrow> string" where
  "trim_start sp s =
     (case find (\<lambda>p. has_prefix p s) sp of
        None \<Rightarrow> s
      | Some p \<Rightarrow> trim_start sp (drop (length p) s))"
  by pat_completeness auto
termination
proof (relation "measure (\<lambda>(sp, s). length s)", simp)
  fix sp s p
  assume "find (\<lambda>p. has_prefix p s) sp = Some p"
  then have "has_prefix p s" by (auto simp: find_Some_iff)
  then have "0 < length p" "take (length p) s = p" by (auto simp: has_prefix_def)
  then have "0 < length s" by (metis length_greater_0_conv take_Nil)
  with \<open>0 < length p\<close> show "((sp, drop (length p) s), sp, s) \<in> measure (\<lambda>(sp, s). length s)"
    by simp
qed

declare trim_start.simps [simp del]

definition TrimSpace :: "string \<Rightarrow> string" where
  "TrimSpace s = rev (trim_start (map rev spaces) (rev (trim_start spaces s)))"

text \<open>
  \<open>parseList\<close> reads from a reader: the bytes it delivers and the error, if any, that ends the
  delivery instead of the end of file.
\<close>

fun parse_lines :: "geth \<Rightarrow> nat \<Rightarrow> address list \<Rightarrow> string list \<Rightarrow> err + address list" where
  "parse_lines G lineNo addrs [] = Inr addrs"
| "parse_lines G lineNo addrs (t # ts) =
     (let line = TrimSpace (cut_hash t)
      in if line = [] then parse_lines G (lineNo + 1) addrs ts
         else if \<not> IsHexAddress G line then Inl (InvalidAddress lineNo line)
         else parse_lines G (lineNo + 1) (addrs @ [HexToAddress G line]) ts)"

definition parseList :: "geth \<Rightarrow> string \<times> err option \<Rightarrow> err + address list" where
  "parseList G r =
     (case parse_lines G 1 [] (scan_tokens (fst r)) of
        Inl e \<Rightarrow> Inl e
      | Inr addrs \<Rightarrow>
          if scan_too_long (fst r)
          then Inl (Wrapped ''read sanctions list: '' (OtherError ''bufio.Scanner: token too long'') '''')
          else case snd r of
            Some e \<Rightarrow> Inl (Wrapped ''read sanctions list: '' e '''')
          | None \<Rightarrow> Inr addrs)"

text \<open>The file system is a parameter: opening a path fails or gives a reader.\<close>

definition LoadListChecker ::
  "geth \<Rightarrow> (string \<Rightarrow> err + string \<times> err option) \<Rightarrow> string \<Rightarrow> err + ListChecker" where
  "LoadListChecker G open_file path =
     (case open_file path of
        Inl e \<Rightarrow> Inl (Wrapped ''open sanctions list: '' e '''')
      | Inr f \<Rightarrow>
          (case parseList G f of
             Inl e \<Rightarrow> Inl (Wrapped (path @ '': '') e '''')
           | Inr addrs \<Rightarrow> Inr (NewListChecker addrs)))"

subsection \<open>AnyChecker\<close>

fun AnyChecker_IsSanctioned :: "'s Checker list \<Rightarrow> 's Checker" where
  "AnyChecker_IsSanctioned [] addr = ret False"
| "AnyChecker_IsSanctioned (checker # cs) addr =
     io_bind (checker addr)
       (\<lambda>hit. if hit then ret True else AnyChecker_IsSanctioned cs addr)"

subsection \<open>OracleChecker\<close>

text \<open>The timeout of a lookup is not a field: a lookup that exceeds it is an error of the node call.\<close>

record 'e OracleChecker =
  oc_caller :: "'e node"
  oc_oracle :: address

definition ChainalysisOracle :: "geth \<Rightarrow> address" where
  "ChainalysisOracle G = HexToAddress G ''0x40C57923924B5c5c5455c48D93317139ADDaC8fb''"

definition isSanctionedSelector :: "geth \<Rightarrow> byte list" where
  "isSanctionedSelector G = take 4 (Keccak256 G (str_bytes ''isSanctioned(address)''))"

definition isSanctionedCalldata :: "geth \<Rightarrow> address \<Rightarrow> byte list" where
  "isSanctionedCalldata G addr =
     [] @ isSanctionedSelector G @ LeftPadBytes G (Address_Bytes G addr) 32"

definition decodeBool :: "byte list \<Rightarrow> (err + bool) option" where
  "decodeBool out =
     (if length out \<noteq> 32
      then Some (Inl (ErrText (''sanctions oracle: unexpected response length '' @ show_nat (length out))))
      else do {
        padding \<leftarrow> subslice out 0 31;
        if list_ex (\<lambda>b. b \<noteq> 0) padding
        then Some (Inl (ErrText ''sanctions oracle: response is not a bool''))
        else do {
          b \<leftarrow> elem_at out 31;
          if b = 0 then Some (Inr False)
          else if b = 1 then Some (Inr True)
          else Some (Inl (ErrText ''sanctions oracle: response is not a bool''))
        }
      })"

definition OracleChecker_Verify :: "geth \<Rightarrow> 'e OracleChecker \<Rightarrow> ('e world, unit) io" where
  "OracleChecker_Verify G c =
     io_bind (on_err (\<lambda>e. Wrapped ''sanctions oracle: '' e '''')
        (ext_call (node_CodeAt (oc_caller c) (oc_oracle c) None)))
       (\<lambda>code. if length code = 0
               then throw (ErrText (''sanctions oracle: no contract at '' @
                      Address_Hex G (oc_oracle c) @ '' on this chain''))
               else ret ())"

definition OracleChecker_IsSanctioned :: "geth \<Rightarrow> 'e OracleChecker \<Rightarrow> 'e world Checker" where
  "OracleChecker_IsSanctioned G c addr =
     io_bind (on_err (\<lambda>e. Wrapped ''sanctions oracle call: '' e '''')
        (ext_call (node_CallContract (oc_caller c) (oc_oracle c) (isSanctionedCalldata G addr) None)))
       (\<lambda>out. io_bind (or_panic (decodeBool out)) (\<lambda>r. case r of Inl e \<Rightarrow> throw e | Inr b \<Rightarrow> ret b))"

subsection \<open>The list file: reading back what is written\<close>

lemma trim_start_Nil [simp]: "trim_start sp [] = []"
proof -
  have "find (\<lambda>p. has_prefix p []) sp = None"
    by (auto simp: find_None_iff has_prefix_def)
  then show ?thesis by (subst trim_start.simps) simp
qed

lemma has_prefix_Cons: "has_prefix p (c # s) \<Longrightarrow> hd p = c"
  by (cases p) (auto simp: has_prefix_def)

lemma trim_start_stop:
  assumes "\<forall>p \<in> set sp. hd p \<noteq> c"
  shows "trim_start sp (c # s) = c # s"
proof -
  have "find (\<lambda>p. has_prefix p (c # s)) sp = None"
    using assms by (auto simp: find_None_iff dest: has_prefix_Cons)
  then show ?thesis by (subst trim_start.simps) simp
qed

lemma trim_start_skip:
  assumes "\<forall>p \<in> set sp. hd p = c \<longrightarrow> p = [c]" and "[c] \<in> set sp"
  shows "trim_start sp (c # s) = trim_start sp s"
proof -
  have "find (\<lambda>p. has_prefix p (c # s)) sp = Some [c]"
  proof (cases "find (\<lambda>p. has_prefix p (c # s)) sp")
    case None
    with assms(2) show ?thesis by (auto simp: find_None_iff has_prefix_def)
  next
    case (Some p)
    then have "p \<in> set sp" "has_prefix p (c # s)" by (auto simp: find_Some_iff)
    with Some assms(1) show ?thesis by (auto dest: has_prefix_Cons)
  qed
  then show ?thesis by (subst trim_start.simps) simp
qed

text \<open>The ASCII white space that can be inside a line.\<close>

definition blanks :: string where
  "blanks = [CHR 0x09, CHR 0x0B, CHR 0x0C, CHR 0x0D, CHR 0x20]"

lemma spaces_blank:
  "\<forall>c \<in> set blanks. [c] \<in> set spaces \<and> (\<forall>p \<in> set spaces. hd p = c \<longrightarrow> p = [c])"
  by (simp add: spaces_def blanks_def)

lemma spaces_hex: "\<forall>c \<in> set hex_alphabet. \<forall>p \<in> set spaces. hd p \<noteq> c \<and> last p \<noteq> c"
  by (simp add: spaces_def hex_alphabet_def)

lemma rev_spaces_blank:
  "\<forall>c \<in> set blanks. [c] \<in> set (map rev spaces) \<and> (\<forall>p \<in> set (map rev spaces). hd p = c \<longrightarrow> p = [c])"
  by (simp add: spaces_def blanks_def)

lemma rev_spaces_hex: "\<forall>c \<in> set hex_alphabet. \<forall>p \<in> set (map rev spaces). hd p \<noteq> c"
  by (simp add: spaces_def hex_alphabet_def)

lemma trim_start_blanks:
  assumes "\<forall>c \<in> set blanks. [c] \<in> set sp \<and> (\<forall>p \<in> set sp. hd p = c \<longrightarrow> p = [c])"
    and "set pre \<subseteq> set blanks"
  shows "trim_start sp (pre @ s) = trim_start sp s"
  using assms(2) by (induction pre) (use assms(1) in \<open>auto simp: trim_start_skip\<close>)

lemma trim_start_hex:
  assumes "\<forall>c \<in> set hex_alphabet. \<forall>p \<in> set sp. hd p \<noteq> c" and "set x \<subseteq> set hex_alphabet" and "x \<noteq> []"
  shows "trim_start sp (x @ s) = x @ s"
  using assms by (cases x) (simp_all add: trim_start_stop)

lemma TrimSpace_padded:
  assumes "set pre \<subseteq> set blanks" and "set post \<subseteq> set blanks" and "set x \<subseteq> set hex_alphabet"
  shows "TrimSpace (pre @ x @ post) = x"
proof (cases "x = []")
  case True
  have "trim_start spaces (pre @ post @ []) = []"
    using assms by (simp only: trim_start_blanks [OF spaces_blank] trim_start_Nil)
  with True show ?thesis by (simp add: TrimSpace_def)
next
  case False
  have "trim_start spaces (pre @ x @ post) = x @ post"
    using assms False spaces_hex by (simp add: trim_start_blanks [OF spaces_blank] trim_start_hex)
  moreover have "trim_start (map rev spaces) (rev post @ rev x @ []) = rev x"
    using assms False trim_start_hex [OF rev_spaces_hex, of "rev x" "[]"]
    by (simp only: trim_start_blanks [OF rev_spaces_blank] set_rev) simp
  ultimately show ?thesis by (simp add: TrimSpace_def)
qed

text \<open>A line of a list file: white space, an address or nothing, white space, a comment or nothing.\<close>

datatype list_line = ListLine string "address option" string "string option"

fun line_text :: "geth \<Rightarrow> list_line \<Rightarrow> string" where
  "line_text G (ListLine pre a post c) =
     pre @ (case a of None \<Rightarrow> [] | Some x \<Rightarrow> Address_Hex G x) @ post @
     (case c of None \<Rightarrow> [] | Some t \<Rightarrow> CHR ''#'' # t)"

fun line_address :: "list_line \<Rightarrow> address list" where
  "line_address (ListLine pre a post c) = (case a of None \<Rightarrow> [] | Some x \<Rightarrow> [x])"

fun line_ok :: "geth \<Rightarrow> list_line \<Rightarrow> bool" where
  "line_ok G (ListLine pre a post c) \<longleftrightarrow>
     list_all (\<lambda>x. x \<in> set blanks) (pre @ post) \<and>
     (case c of None \<Rightarrow> True | Some t \<Rightarrow> newline \<notin> set t) \<and>
     length (line_text G (ListLine pre a post c)) < MaxScanTokenSize"

definition file_text :: "geth \<Rightarrow> list_line list \<Rightarrow> string" where
  "file_text G ls = concat (map (\<lambda>l. line_text G l @ [newline]) ls)"

lemma raw_lines_line:
  "newline \<notin> set l \<Longrightarrow> raw_lines acc (l @ newline # s) = (rev acc @ l) # raw_lines [] s"
  by (induction l arbitrary: acc) auto

lemma raw_lines_concat:
  "\<forall>l \<in> set ls. newline \<notin> set l \<Longrightarrow> raw_lines [] (concat (map (\<lambda>l. l @ [newline]) ls)) = ls"
  by (induction ls) (auto simp: raw_lines_line)

lemma parse_lines_append_addrs:
  assumes "\<forall>t \<in> set ts. let line = TrimSpace (cut_hash t) in line \<noteq> [] \<longrightarrow> IsHexAddress G line"
  shows "parse_lines G n addrs ts =
     Inr (addrs @ map (HexToAddress G) (filter (\<lambda>l. l \<noteq> []) (map (\<lambda>t. TrimSpace (cut_hash t)) ts)))"
  using assms by (induction ts arbitrary: n addrs) (auto simp: Let_def)

lemma cut_hash_no_hash: "CHR ''#'' \<notin> set s \<Longrightarrow> cut_hash s = s"
  by (auto simp: cut_hash_def takeWhile_eq_all_conv)

lemma cut_hash_comment: "CHR ''#'' \<notin> set s \<Longrightarrow> cut_hash (s @ CHR ''#'' # t) = s"
  unfolding cut_hash_def by (subst takeWhile_append2) auto

lemma hash_free: "CHR ''#'' \<notin> set hex_alphabet" "CHR ''#'' \<notin> set blanks"
  "newline \<notin> set hex_alphabet" "newline \<notin> set blanks" "CHR 0x0D \<notin> set hex_alphabet"
  by (simp_all add: hex_alphabet_def blanks_def newline_def)

lemma dropCR_append: "t \<noteq> [] \<Longrightarrow> dropCR (s @ t) = s @ dropCR t"
  by (simp add: dropCR_def butlast_append)

lemma dropCR_other: "CHR 0x0D \<notin> set x \<Longrightarrow> dropCR x = x"
  by (metis dropCR_def last_in_set)

lemma set_dropCR: "set (dropCR s) \<subseteq> set s"
  by (auto simp: dropCR_def dest: in_set_butlastD)

text \<open>The padding keeps its shape when a carriage return is dropped at the end.\<close>

lemma dropCR_padded:
  assumes "set pre \<subseteq> set blanks" and "set post \<subseteq> set blanks" and "set x \<subseteq> set hex_alphabet"
  obtains pre' post' where "dropCR (pre @ x @ post) = pre' @ x @ post'"
    and "set pre' \<subseteq> set blanks" and "set post' \<subseteq> set blanks"
proof -
  consider "post \<noteq> []" | "post = []" "x \<noteq> []" | "post = []" "x = []" by blast
  then show ?thesis
  proof cases
    case 1
    then have "dropCR (pre @ x @ post) = pre @ x @ dropCR post"
      using dropCR_append [of post "pre @ x"] by simp
    with that assms set_dropCR [of post] show ?thesis by blast
  next
    case 2
    then have "dropCR (pre @ x @ post) = pre @ x @ []"
      using dropCR_append [of x pre] dropCR_other [of x] assms(3) hash_free(5) by auto
    with that [of pre "[]"] assms show ?thesis by simp
  next
    case 3
    then have "dropCR (pre @ x @ post) = dropCR pre @ x @ []" by simp
    with that [of "dropCR pre" "[]"] assms set_dropCR [of pre] show ?thesis by auto
  qed
qed

lemma line_content:
  assumes "hex_ok G" and "line_ok G (ListLine pre a post c)"
  shows "TrimSpace (cut_hash (dropCR (line_text G (ListLine pre a post c)))) =
    (case a of None \<Rightarrow> [] | Some x \<Rightarrow> Address_Hex G x)"
proof -
  define x where "x = (case a of None \<Rightarrow> [] | Some x \<Rightarrow> Address_Hex G x)"
  have x: "set x \<subseteq> set hex_alphabet"
    using hex_okD(1) [OF assms(1)] by (auto simp: x_def split: option.splits)
  have b: "set pre \<subseteq> set blanks" "set post \<subseteq> set blanks"
    using assms(2) by (auto simp: list_all_iff)
  have free: "CHR ''#'' \<notin> set (p @ x @ q)" if "set p \<subseteq> set blanks" "set q \<subseteq> set blanks" for p q
    using that x hash_free by auto
  show ?thesis
  proof (cases c)
    case None
    obtain p q where pq: "dropCR (pre @ x @ post) = p @ x @ q" "set p \<subseteq> set blanks" "set q \<subseteq> set blanks"
      using dropCR_padded [OF b x] .
    with None show ?thesis
      using cut_hash_no_hash [OF free [OF pq(2,3)]] TrimSpace_padded [OF pq(2,3) x]
      by (simp add: x_def [symmetric])
  next
    case (Some t)
    have "dropCR (pre @ x @ post @ CHR ''#'' # t) = (pre @ x @ post) @ dropCR (CHR ''#'' # t)"
      using dropCR_append [of "CHR ''#'' # t" "pre @ x @ post"] by simp
    moreover obtain t' where "dropCR (CHR ''#'' # t) = CHR ''#'' # t'"
      using dropCR_append [of t "[CHR ''#'']"] by (cases "t = []") (simp_all add: dropCR_def)
    ultimately show ?thesis
      using Some cut_hash_comment [OF free [OF b]] TrimSpace_padded [OF b x]
      by (simp add: x_def [symmetric])
  qed
qed

lemma line_no_newline:
  assumes "hex_ok G" and "line_ok G l"
  shows "newline \<notin> set (line_text G l)"
proof -
  obtain pre a post c where l: "l = ListLine pre a post c" by (cases l)
  have "newline \<notin> set (Address_Hex G x)" for x
    using hex_okD(1) [OF assms(1), of x] hash_free(3) by blast
  moreover have "newline \<notin> set pre" "newline \<notin> set post"
    using assms(2) hash_free(4) by (auto simp: l list_all_iff)
  moreover have "newline \<noteq> CHR ''#''" by (simp add: newline_def)
  ultimately show ?thesis using assms(2) by (auto simp: l split: option.splits)
qed

lemma scan_file_text:
  assumes "hex_ok G" and "\<forall>l \<in> set ls. line_ok G l"
  shows "scan_tokens (file_text G ls) = map (\<lambda>l. dropCR (line_text G l)) ls"
    and "\<not> scan_too_long (file_text G ls)"
proof -
  have raw: "raw_lines [] (file_text G ls) = map (line_text G) ls"
    using raw_lines_concat [of "map (line_text G) ls"] line_no_newline [OF assms(1)] assms(2)
    by (simp add: file_text_def o_def)
  have short: "length (line_text G l) < MaxScanTokenSize" if "l \<in> set ls" for l
    using assms(2) that by (cases l) auto
  then have "takeWhile (\<lambda>l. length l < MaxScanTokenSize) (map (line_text G) ls) = map (line_text G) ls"
    by (subst takeWhile_eq_all_conv) auto
  then show "scan_tokens (file_text G ls) = map (\<lambda>l. dropCR (line_text G l)) ls"
    by (simp only: scan_tokens_def raw map_map o_def)
  show "\<not> scan_too_long (file_text G ls)"
    using short by (auto simp: scan_too_long_def raw list_ex_iff not_le)
qed

lemma line_content_address:
  assumes "hex_ok G" and "line_ok G l"
  defines "t \<equiv> TrimSpace (cut_hash (dropCR (line_text G l)))"
  shows "t \<noteq> [] \<longrightarrow> IsHexAddress G t" and "(if t \<noteq> [] then [HexToAddress G t] else []) = line_address l"
proof -
  obtain pre a post c where l: "l = ListLine pre a post c" by (cases l)
  have t: "t = (case a of None \<Rightarrow> [] | Some x \<Rightarrow> Address_Hex G x)"
    using line_content [OF assms(1) assms(2) [unfolded l]] by (simp add: t_def l)
  have "Address_Hex G x \<noteq> []" for x
    using hex_okD(2) [OF assms(1), of x] by auto
  then show "t \<noteq> [] \<longrightarrow> IsHexAddress G t"
    and "(if t \<noteq> [] then [HexToAddress G t] else []) = line_address l"
    using hex_okD(3,4) [OF assms(1)] by (auto simp: t l split: option.splits)
qed

lemma map_filter_concat:
  "map f (filter P xs) = concat (map (\<lambda>x. if P x then [f x] else []) xs)"
  by (induction xs) auto

text \<open>
  C29. A sanctions list file is read back exactly: for lines made of white space, an address or
  nothing, white space and an optional comment (carriage returns included), the parser gives the
  addresses in order and drops nothing and adds nothing.
\<close>

theorem parseList_roundtrip:
  assumes "hex_ok G" and "\<forall>l \<in> set ls. line_ok G l"
  shows "parseList G (file_text G ls, None) = Inr (concat (map line_address ls))"
proof -
  let ?ts = "map (\<lambda>l. dropCR (line_text G l)) ls"
  let ?t = "\<lambda>l. TrimSpace (cut_hash (dropCR (line_text G l)))"
  have "\<forall>t \<in> set ?ts. let line = TrimSpace (cut_hash t) in line \<noteq> [] \<longrightarrow> IsHexAddress G line"
    using line_content_address(1) [OF assms(1)] assms(2) by (auto simp: Let_def)
  moreover have "map (HexToAddress G) (filter (\<lambda>l. l \<noteq> []) (map ?t ls)) = concat (map line_address ls)"
    unfolding map_filter_concat map_map o_def
    by (intro arg_cong [where f = concat] map_cong refl line_content_address(2) [OF assms(1)])
      (use assms(2) in blast)
  ultimately show ?thesis
    using scan_file_text [OF assms] by (simp add: parseList_def parse_lines_append_addrs o_def)
qed

theorem parseList_roundtrip_witness:
  "\<exists>ls. parseList geth_model (file_text geth_model ls, None) = Inr [5, 6] \<and> length ls = 3"
proof -
  let ?ls = "[ListLine '' '' (Some 5) [CHR 0x09] (Some '' mixer''), ListLine [] None [] None,
    ListLine [] (Some 6) [CHR 0x0D] None]"
  have "length (line_text geth_model l) < MaxScanTokenSize" if "l \<in> set ?ls" for l
    using that by (auto simp: MaxScanTokenSize_def hex_okD(2) [OF geth_model_hex_ok])
  then have "\<forall>l \<in> set ?ls. line_ok geth_model l"
    by (simp add: blanks_def newline_def del: line_text.simps)
  from parseList_roundtrip [OF geth_model_hex_ok this] show ?thesis
    by (intro exI [of _ ?ls]) simp
qed

subsection \<open>Strict decoding of the oracle's answer\<close>

lemma all_zero_replicate: "(\<forall>b \<in> set bs. b = 0) \<longleftrightarrow> bs = replicate (length bs) 0"
  by (metis in_set_replicate replicate_eqI)

lemma be_bytes_zero: "be_bytes n 0 = replicate n 0"
proof (induction n)
  case (Suc n)
  then show ?case by (simp add: replicate_append_same)
qed simp

lemma decodeBool_defined: "\<exists>r. decodeBool out = Some r"
  by (simp add: decodeBool_def)

lemma decodeBool_iff: "decodeBool out = Some (Inr b) \<longleftrightarrow> out = be_bytes 32 (of_bool b)"
proof (cases "length out = 32")
  case False
  moreover have "out \<noteq> be_bytes 32 (of_bool b)"
    using False length_be_bytes [of 32 "of_bool b"] by metis
  ultimately show ?thesis by (simp add: decodeBool_def)
next
  case True
  then have out: "out = take 31 out @ [out ! 31]"
    using take_Suc_conv_app_nth [of 31 out] by simp
  have zero: "\<not> list_ex (\<lambda>b. b \<noteq> 0) (take 31 out) \<longleftrightarrow> take 31 out = replicate 31 0"
    using all_zero_replicate [of "take 31 out"] True by (auto simp: list_ex_iff)
  have "be_bytes 32 (of_bool b) = replicate 31 0 @ [word_of_int (of_bool b)]"
    using be_bytes.simps(2) [of 31 "of_bool b"] by (simp add: be_bytes_zero)
  then have "out = be_bytes 32 (of_bool b) \<longleftrightarrow> take 31 out = replicate 31 0 \<and> out ! 31 = word_of_int (of_bool b)"
    using out by (metis append1_eq_conv)
  then show ?thesis
    using True zero by (cases b) (auto simp: decodeBool_def)
qed

text \<open>
  C30. The oracle's answer is decoded strictly: only the 32-byte encodings of 0 and 1 are read as a
  boolean, every other answer (the empty one included) is an error and not a panic, and the boolean
  read is the one encoded.
\<close>

theorem decodeBool_strict:
  "(decodeBool out = Some (Inr b) \<longleftrightarrow> out = be_bytes 32 (of_bool b)) \<and>
   (out \<noteq> be_bytes 32 0 \<and> out \<noteq> be_bytes 32 1 \<longleftrightarrow> (\<exists>e. decodeBool out = Some (Inl e)))"
proof -
  have "out \<noteq> be_bytes 32 0 \<and> out \<noteq> be_bytes 32 1 \<longleftrightarrow> \<not> (\<exists>c. decodeBool out = Some (Inr c))"
    unfolding ex_bool_eq decodeBool_iff by (simp only: of_bool_eq de_Morgan_disj conj_commute)
  also have "\<dots> \<longleftrightarrow> (\<exists>e. decodeBool out = Some (Inl e))"
    using decodeBool_defined [of out] by (metis Inl_Inr_False obj_sumE option.inject)
  finally show ?thesis using decodeBool_iff [of out b] by blast
qed

subsection \<open>Checkers as lookup services\<close>

lemma lc_set_New [simp]: "lc_set (NewListChecker addrs) = set addrs"
proof -
  have "fold insert xs S = set xs \<union> S" for xs :: "address list" and S
    by (induction xs arbitrary: S) auto
  then show ?thesis by (simp add: NewListChecker_def)
qed

interpretation list_service: lookup_service "ListChecker_IsSanctioned c" P "\<lambda>a. a \<in> lc_set c" for c P
  by unfold_locales (simp add: ListChecker_IsSanctioned_def safe_ret)

interpretation list_answer: partial_lookup "ListChecker_IsSanctioned c" P "\<lambda>a. Some (a \<in> lc_set c)" for c P
  by unfold_locales (simp add: ListChecker_IsSanctioned_def safe_ret)

text \<open>
  What the oracle contract answers for an address in a chain state: nothing when the call reverts or
  returns anything but an encoded boolean.
\<close>

definition oracle_answer :: "geth \<Rightarrow> chain \<Rightarrow> address \<Rightarrow> address \<Rightarrow> bool option" where
  "oracle_answer G ch orc a =
     (case ch_call ch orc (isSanctionedCalldata G a) of
        None \<Rightarrow> None
      | Some out \<Rightarrow>
          if out = be_bytes 32 1 then Some True else if out = be_bytes 32 0 then Some False else None)"

lemma ext_only_Oracle [ext_only_intros]: "ext_only (OracleChecker_IsSanctioned G c addr)"
  unfolding OracleChecker_IsSanctioned_def by (auto intro!: ext_only_intros split: sum.split)

lemma oracle_answer_decoded:
  "ch_call ch orc (isSanctionedCalldata G a) = Some out \<Longrightarrow> decodeBool out = Some (Inr b) \<Longrightarrow>
   oracle_answer G ch orc a = Some b"
proof -
  have "be_bytes 32 0 \<noteq> be_bytes 32 1" by (simp add: be_bytes_inject_mod)
  then show "ch_call ch orc (isSanctionedCalldata G a) = Some out \<Longrightarrow> decodeBool out = Some (Inr b) \<Longrightarrow>
   oracle_answer G ch orc a = Some b"
    unfolding decodeBool_iff by (cases b) (auto simp: oracle_answer_def)
qed

lemma safe_decode:
  "ch_call ch orc (isSanctionedCalldata G a) = Some out \<Longrightarrow>
   safe P (io_bind (or_panic (decodeBool out)) (\<lambda>r. case r of Inl e \<Rightarrow> throw e | Inr b \<Rightarrow> ret b))
     (\<lambda>v. oracle_answer G ch orc a = Some v)"
  using decodeBool_defined [of out]
  by (auto simp: or_panic_Some oracle_answer_decoded intro!: safe_ret safe_throw split: sum.split)

interpretation oc: partial_lookup
  "OracleChecker_IsSanctioned G \<lparr>oc_caller = rf_reader c, oc_oracle = orc\<rparr>"
  "rf_inv c ch I C" "oracle_answer G ch orc" for G c orc ch I C
proof unfold_locales
  fix k
  let ?call = "ext_call (node_CallContract (rf_reader c) orc (isSanctionedCalldata G k) None)"
  have "safe (rf_inv c ch I (\<lambda>k E. True \<and> C k E)) (io_try ?call)
      (\<lambda>r. case r of Inl e \<Rightarrow> True | Inr v \<Rightarrow> ch_call ch orc (isSanctionedCalldata G k) = Some v)"
    by (rule safe_served_try) (auto simp: serves_def answers_call_def split: sum.split)
  then have "safe (rf_inv c ch I C) ?call (\<lambda>v. ch_call ch orc (isSanctionedCalldata G k) = Some v)"
    unfolding simp_thms by (rule safe_from_try)
  then show "safe (rf_inv c ch I C)
      (OracleChecker_IsSanctioned G \<lparr>oc_caller = rf_reader c, oc_oracle = orc\<rparr> k)
      (\<lambda>v. oracle_answer G ch orc k = Some v)"
    unfolding OracleChecker_IsSanctioned_def OracleChecker.simps
    by (rule safe_bind [OF safe_on_err]) (rule safe_decode)
qed

text \<open>The oracle is asked through a connection of its own, which may lead to another chain.\<close>

lemma rf_inv_swap:
  "rf_inv c ch I (\<lambda>k e. serves N dh I \<and> C k e) =
   rf_inv \<lparr>rf_reader = N, rf_window = 0\<rparr> dh I (\<lambda>k e. serves (rf_reader c) ch I \<and> C k e)"
  by (auto simp: rf_inv_def fun_eq_iff)

interpretation oc_other: partial_lookup
  "OracleChecker_IsSanctioned G \<lparr>oc_caller = N, oc_oracle = orc\<rparr>"
  "rf_inv c ch I (\<lambda>k e. serves N dh I \<and> C k e)" "oracle_answer G dh orc" for G N orc c ch I C dh
  using oc.partial_lookup_axioms [of G "\<lparr>rf_reader = N, rf_window = 0\<rparr>" orc dh I]
  unfolding rf_inv_swap [of c ch I N dh C] by simp

text \<open>
  \<open>AnyChecker\<close> combines checkers over the same state: it asks them in order and answers what the
  first one says that reports the address, or clean when all of them answered clean.
\<close>

fun any_answer :: "(address \<Rightarrow> bool option) list \<Rightarrow> address \<Rightarrow> bool option" where
  "any_answer [] a = Some False"
| "any_answer (f # fs) a =
     (case f a of None \<Rightarrow> None | Some True \<Rightarrow> Some True | Some False \<Rightarrow> any_answer fs a)"

locale checkers =
  fixes cs :: "'s Checker list"
    and inv :: "'s \<Rightarrow> bool"
    and answers :: "(address \<Rightarrow> bool option) list"
  assumes each: "list_all2 (\<lambda>c answer. partial_lookup c inv answer) cs answers"
begin

lemma any_safe: "safe inv (AnyChecker_IsSanctioned cs addr) (\<lambda>v. any_answer answers addr = Some v)"
  using each
proof (induction cs answers rule: list_all2_induct)
  case Nil
  then show ?case by (simp add: safe_ret)
next
  case (Cons c cs f fs)
  have "safe inv (if v then ret True else AnyChecker_IsSanctioned cs addr)
      (\<lambda>v. any_answer (f # fs) addr = Some v)" if "f addr = Some v" for v
    using that Cons.IH by (cases v) (simp_all add: safe_ret)
  then have "safe inv (io_bind (c addr) (\<lambda>hit. if hit then ret True else AnyChecker_IsSanctioned cs addr))
      (\<lambda>v. any_answer (f # fs) addr = Some v)"
    by (rule safe_bind [OF partial_lookup.get_answer [OF Cons.hyps(1)]])
  then show ?case by simp
qed

end

sublocale checkers \<subseteq> any: partial_lookup "AnyChecker_IsSanctioned cs" inv "any_answer answers"
  by unfold_locales (rule any_safe)

end
