(* ===== verification/Json.thy ===== *)
theory Json
  imports Sanctions
begin

text \<open>
  What the firewall uses of Go's package \<open>encoding/json\<close>: the syntax check, string unquoting, the
  raw text of values, and the matching of object keys to struct fields. A text is a list of bytes
  (characters). \<open>parse_value\<close> recognises one value and gives what is left; a value of an object
  keeps its raw text, as \<open>json.RawMessage\<close> does. Recursive calls on what a sub-parser left are
  guarded by its being shorter; \<open>parse_shorter\<close> shows that the guards never fail.
\<close>

definition is_ws :: "char \<Rightarrow> bool" where
  "is_ws c \<longleftrightarrow> c = CHR '' '' \<or> c = CHR 0x09 \<or> c = CHR 0x0A \<or> c = CHR 0x0D"

definition skip_ws :: "string \<Rightarrow> string" where
  "skip_ws s = dropWhile is_ws s"

definition is_digit :: "char \<Rightarrow> bool" where
  "is_digit c \<longleftrightarrow> c \<in> set ''0123456789''"

subsection \<open>Strings\<close>

text \<open>
  The scanner on the inside of a string literal: the literal up to the closing quote, and the rest.
  Control characters and unknown escapes are errors.
\<close>

fun scan_string :: "string \<Rightarrow> (string \<times> string) option" where
  "scan_string [] = None"
| "scan_string (c # s) =
     (if c = CHR 0x22 then Some ([], s)
      else if c = CHR 0x5C then
        (case s of
           [] \<Rightarrow> None
         | e # s1 \<Rightarrow>
             if e = CHR ''u'' then
               (case s1 of
                  h1 # h2 # h3 # h4 # s2 \<Rightarrow>
                    if list_all is_hex_char [h1, h2, h3, h4]
                    then map_option (\<lambda>(l, r). (c # e # h1 # h2 # h3 # h4 # l, r)) (scan_string s2)
                    else None
                | _ \<Rightarrow> None)
             else if e \<in> set [CHR 0x22, CHR 0x5C, CHR ''/'', CHR ''b'', CHR ''f'', CHR ''n'', CHR ''r'', CHR ''t'']
             then map_option (\<lambda>(l, r). (c # e # l, r)) (scan_string s1)
             else None)
      else if (of_char c :: nat) < 32 then None
      else map_option (\<lambda>(l, r). (c # l, r)) (scan_string s))"

text \<open>\<open>utf8.EncodeRune\<close> on a code point.\<close>

definition replacement_char :: string where
  "replacement_char = [CHR 0xEF, CHR 0xBF, CHR 0xBD]"

definition encode_rune :: "nat \<Rightarrow> string" where
  "encode_rune n =
     (if n < 0x80 then [char_of n]
      else if n < 0x800 then [char_of (0xC0 + n div 0x40), char_of (0x80 + n mod 0x40)]
      else if 0xD800 \<le> n \<and> n < 0xE000 \<or> n \<ge> 0x110000 then replacement_char
      else if n < 0x10000 then
        [char_of (0xE0 + n div 0x1000), char_of (0x80 + n div 0x40 mod 0x40), char_of (0x80 + n mod 0x40)]
      else
        [char_of (0xF0 + n div 0x40000), char_of (0x80 + n div 0x1000 mod 0x40),
         char_of (0x80 + n div 0x40 mod 0x40), char_of (0x80 + n mod 0x40)])"

text \<open>The number of bytes of the multi-byte UTF-8 sequence at the start of a text, 0 if there is none.\<close>

definition in_range :: "char \<Rightarrow> nat \<Rightarrow> nat \<Rightarrow> bool" where
  "in_range c lo hi \<longleftrightarrow> lo \<le> (of_char c :: nat) \<and> (of_char c :: nat) \<le> hi"

definition utf8_len :: "string \<Rightarrow> nat" where
  "utf8_len s =
     (case s of
        a # b # s2 \<Rightarrow>
          if in_range a 0xC2 0xDF then (if in_range b 0x80 0xBF then 2 else 0)
          else if in_range a 0xE0 0xEF then
            (case s2 of
               c # _ \<Rightarrow>
                 if in_range b (if a = CHR 0xE0 then 0xA0 else 0x80) (if a = CHR 0xED then 0x9F else 0xBF) \<and>
                    in_range c 0x80 0xBF then 3 else 0
             | [] \<Rightarrow> 0)
          else if in_range a 0xF0 0xF4 then
            (case s2 of
               c # d # _ \<Rightarrow>
                 if in_range b (if a = CHR 0xF0 then 0x90 else 0x80) (if a = CHR 0xF4 then 0x8F else 0xBF) \<and>
                    in_range c 0x80 0xBF \<and> in_range d 0x80 0xBF then 4 else 0
             | _ \<Rightarrow> 0)
          else 0
      | _ \<Rightarrow> 0)"

text \<open>\<open>getu4\<close>: the code unit of an escape of the form \<open>\uXXXX\<close> at the start of a text.\<close>

definition getu4 :: "string \<Rightarrow> nat option" where
  "getu4 s =
     (case s of
        b # u # h1 # h2 # h3 # h4 # _ \<Rightarrow>
          if b = CHR 0x5C \<and> u = CHR ''u'' \<and> list_all is_hex_char [h1, h2, h3, h4]
          then Some (((hex_val h1 * 16 + hex_val h2) * 16 + hex_val h3) * 16 + hex_val h4)
          else None
      | _ \<Rightarrow> None)"

text \<open>\<open>utf16.DecodeRune\<close> on a pair of surrogates.\<close>

definition surrogate_pair :: "nat \<Rightarrow> nat option \<Rightarrow> nat option" where
  "surrogate_pair r1 r2 =
     (case r2 of
        Some r2' \<Rightarrow>
          if 0xD800 \<le> r1 \<and> r1 < 0xDC00 \<and> 0xDC00 \<le> r2' \<and> r2' < 0xE000
          then Some ((r1 - 0xD800) * 0x400 + (r2' - 0xDC00) + 0x10000) else None
      | None \<Rightarrow> None)"

definition simple_escape :: "char \<Rightarrow> char option" where
  "simple_escape e =
     (if e \<in> set [CHR 0x22, CHR 0x5C, CHR ''/'', CHR 0x27] then Some e
      else if e = CHR ''b'' then Some (CHR 0x08)
      else if e = CHR ''f'' then Some (CHR 0x0C)
      else if e = CHR ''n'' then Some (CHR 0x0A)
      else if e = CHR ''r'' then Some (CHR 0x0D)
      else if e = CHR ''t'' then Some (CHR 0x09)
      else None)"

text \<open>\<open>unquote\<close> on the inside of a literal.\<close>

function unquote :: "string \<Rightarrow> string option" where
  "unquote [] = Some []"
| "unquote (c # s) =
     (if c = CHR 0x5C then
        (case s of
           [] \<Rightarrow> None
         | e # s1 \<Rightarrow>
             if e = CHR ''u'' then
               (case getu4 (c # s) of
                  None \<Rightarrow> None
                | Some rr \<Rightarrow>
                    if 0xD800 \<le> rr \<and> rr < 0xE000 then
                      (case surrogate_pair rr (getu4 (drop 5 s)) of
                         Some dec \<Rightarrow> map_option ((@) (encode_rune dec)) (unquote (drop 11 s))
                       | None \<Rightarrow> map_option ((@) replacement_char) (unquote (drop 5 s)))
                    else map_option ((@) (encode_rune rr)) (unquote (drop 5 s)))
             else
               (case simple_escape e of
                  None \<Rightarrow> None
                | Some x \<Rightarrow> map_option ((#) x) (unquote s1)))
      else if c = CHR 0x22 \<or> (of_char c :: nat) < 32 then None
      else if (of_char c :: nat) < 128 then map_option ((#) c) (unquote s)
      else if utf8_len (c # s) = 0 then map_option ((@) replacement_char) (unquote s)
      else map_option ((@) (take (utf8_len (c # s)) (c # s))) (unquote (drop (utf8_len (c # s)) (c # s))))"
  by pat_completeness auto
termination
  by (relation "measure length") (auto simp: less_Suc_eq_le)

declare unquote.simps [simp del]

subsection \<open>Numbers and literals\<close>

text \<open>What is left after one or more digits.\<close>

definition digits1 :: "string \<Rightarrow> string option" where
  "digits1 s = (case s of c # s1 \<Rightarrow> if is_digit c then Some (dropWhile is_digit s1) else None | [] \<Rightarrow> None)"

definition number_int :: "string \<Rightarrow> string option" where
  "number_int s =
     (case s of
        c # s1 \<Rightarrow> if c = CHR ''0'' then Some s1 else digits1 s
      | [] \<Rightarrow> None)"

definition number_frac :: "string \<Rightarrow> string option" where
  "number_frac s = (case s of c # s1 \<Rightarrow> if c = CHR ''.'' then digits1 s1 else Some s | [] \<Rightarrow> Some [])"

definition number_exp :: "string \<Rightarrow> string option" where
  "number_exp s =
     (case s of
        c # s1 \<Rightarrow>
          if c = CHR ''e'' \<or> c = CHR ''E'' then
            (case s1 of
               x # s2 \<Rightarrow> if x = CHR ''+'' \<or> x = CHR ''-'' then digits1 s2 else digits1 s1
             | [] \<Rightarrow> None)
          else Some s
      | [] \<Rightarrow> Some [])"

definition scan_number :: "string \<Rightarrow> string option" where
  "scan_number s =
     Option.bind (number_int (case s of c # s1 \<Rightarrow> if c = CHR ''-'' then s1 else s | [] \<Rightarrow> []))
       (\<lambda>s1. Option.bind (number_frac s1) number_exp)"

definition scan_literal :: "string \<Rightarrow> string \<Rightarrow> string option" where
  "scan_literal lit s = (if take (length lit) s = lit then Some (drop (length lit) s) else None)"

subsection \<open>Values\<close>

datatype json =
    JNull
  | JBool bool
  | JNumber
  | JString string
  | JArray "json list"
  | JObject "(string \<times> string \<times> json) list"

definition maxNestingDepth :: nat where
  "maxNestingDepth = 10000"

text \<open>The raw text of a value: from its first character to what is left after it.\<close>

definition raw_text :: "string \<Rightarrow> string \<Rightarrow> string" where
  "raw_text s rest = take (length s - length rest) s"

text \<open>A value that is not an object or array.\<close>

definition parse_scalar :: "char \<Rightarrow> string \<Rightarrow> (json \<times> string) option" where
  "parse_scalar c s =
     (if c = CHR 0x22 then
        (case scan_string s of
           None \<Rightarrow> None
         | Some (lit, rest) \<Rightarrow> map_option (\<lambda>t. (JString t, rest)) (unquote lit))
      else if c = CHR ''n'' then map_option (Pair JNull) (scan_literal ''ull'' s)
      else if c = CHR ''t'' then map_option (Pair (JBool True)) (scan_literal ''rue'' s)
      else if c = CHR ''f'' then map_option (Pair (JBool False)) (scan_literal ''alse'' s)
      else if c = CHR ''-'' \<or> is_digit c then map_option (Pair JNumber) (scan_number (c # s))
      else None)"

text \<open>A key, the colon after it, and what is left.\<close>

definition parse_key :: "string \<Rightarrow> (string \<times> string) option" where
  "parse_key s =
     (case skip_ws s of
        c # s1 \<Rightarrow>
          if c = CHR 0x22 then
            (case scan_string s1 of
               None \<Rightarrow> None
             | Some (lit, s2) \<Rightarrow>
                 (case (unquote lit, skip_ws s2) of
                    (Some key, k # s3) \<Rightarrow> if k = CHR '':'' then Some (key, s3) else None
                  | _ \<Rightarrow> None))
          else None
      | [] \<Rightarrow> None)"

text \<open>After an element: a comma (\<open>True\<close>) or the closing character.\<close>

definition parse_sep :: "char \<Rightarrow> string \<Rightarrow> (bool \<times> string) option" where
  "parse_sep close s =
     (case skip_ws s of
        c # s1 \<Rightarrow> if c = CHR '','' then Some (True, s1) else if c = close then Some (False, s1) else None
      | [] \<Rightarrow> None)"

lemma length_skip_ws: "length (skip_ws s) \<le> length s"
  by (simp add: skip_ws_def length_dropWhile_le)

lemma skip_ws_Cons: "skip_ws s = c # s1 \<Longrightarrow> length s1 < length s"
  using length_skip_ws [of s] by simp

function parse_value :: "nat \<Rightarrow> string \<Rightarrow> (json \<times> string) option"
  and parse_elements :: "nat \<Rightarrow> string \<Rightarrow> (json list \<times> string) option"
  and parse_members :: "nat \<Rightarrow> string \<Rightarrow> ((string \<times> string \<times> json) list \<times> string) option" where
  "parse_value d s =
     (case skip_ws s of
        [] \<Rightarrow> None
      | c # s1 \<Rightarrow>
          if c = CHR ''['' then
            if d \<ge> maxNestingDepth then None
            else (case skip_ws s1 of
                    [] \<Rightarrow> None
                  | x # s2 \<Rightarrow>
                      if x = CHR '']'' then Some (JArray [], s2)
                      else map_option (apfst JArray) (parse_elements (d + 1) s1))
          else if c = CHR ''{'' then
            if d \<ge> maxNestingDepth then None
            else (case skip_ws s1 of
                    [] \<Rightarrow> None
                  | x # s2 \<Rightarrow>
                      if x = CHR ''}'' then Some (JObject [], s2)
                      else map_option (apfst JObject) (parse_members (d + 1) s1))
          else parse_scalar c s1)"
| "parse_elements d s =
     (case parse_value d s of
        None \<Rightarrow> None
      | Some (v, s1) \<Rightarrow>
          (case parse_sep (CHR '']'') s1 of
             None \<Rightarrow> None
           | Some (comma, s2) \<Rightarrow>
               if \<not> comma then Some ([v], s2)
               else if length s2 < length s then map_option (apfst ((#) v)) (parse_elements d s2)
               else None))"
| "parse_members d s =
     (case parse_key s of
        None \<Rightarrow> None
      | Some (key, s1) \<Rightarrow>
          if length s1 < length s then
            (case parse_value d s1 of
               None \<Rightarrow> None
             | Some (v, s2) \<Rightarrow>
                 (let raw = raw_text (skip_ws s1) s2
                  in case parse_sep (CHR ''}'') s2 of
                       None \<Rightarrow> None
                     | Some (comma, s3) \<Rightarrow>
                         if \<not> comma then Some ([(key, raw, v)], s3)
                         else if length s3 < length s
                         then map_option (apfst ((#) (key, raw, v))) (parse_members d s3)
                         else None))
          else None)"
  by pat_completeness auto

termination
  by (relation "measures [\<lambda>x. case x of Inl (d, s) \<Rightarrow> length s | Inr (Inl (d, s)) \<Rightarrow> length s | Inr (Inr (d, s)) \<Rightarrow> length s,
      \<lambda>x. case x of Inl _ \<Rightarrow> 0 | _ \<Rightarrow> 1]") (auto dest: skip_ws_Cons)

declare parse_value.simps [simp del] parse_elements.simps [simp del] parse_members.simps [simp del]

text \<open>A whole text: one value, and nothing but white space after it.\<close>

definition parse_json :: "string \<Rightarrow> json option" where
  "parse_json s =
     (case parse_value 0 s of
        Some (v, rest) \<Rightarrow> if skip_ws rest = [] then Some v else None
      | None \<Rightarrow> None)"

subsection \<open>The guards of the parser never fail\<close>

lemma scan_string_shorter: "scan_string s = Some (l, r) \<Longrightarrow> length r < length s"
proof (induction "length s" arbitrary: s l r rule: less_induct)
  case less
  then obtain c t where s: "s = c # t" by (cases s) auto
  have IH: "length r' < length u" if "scan_string u = Some (l', r')" "length u \<le> length t" for u l' r'
    using less.hyps [of u l' r'] that by (simp add: s)
  have drops: "length r' < n" if "scan_string u = Some (l', r')" "length u \<le> length t" "length u \<le> n" for u l' r' n
    using IH [OF that(1,2)] that(3) by simp
  show ?case
    using less.prems unfolding s
    by (auto simp: less_Suc_eq_le dest!: drops [where n = "length t"] split: if_splits list.splits)
qed

lemma digits1_shorter: "digits1 s = Some r \<Longrightarrow> length r < length s"
  using length_dropWhile_le [of is_digit "tl s"]
  by (auto simp: digits1_def split: list.splits if_splits)

lemma number_int_shorter: "number_int s = Some r \<Longrightarrow> length r < length s"
  by (auto simp: number_int_def dest: digits1_shorter split: list.splits if_splits)

lemma number_frac_shorter: "number_frac s = Some r \<Longrightarrow> length r \<le> length s"
  by (auto simp: number_frac_def dest: digits1_shorter split: list.splits if_splits)

lemma number_exp_shorter: "number_exp s = Some r \<Longrightarrow> length r \<le> length s"
  by (auto simp: number_exp_def dest: digits1_shorter split: list.splits if_splits)

lemma scan_number_shorter:
  assumes "scan_number s = Some r"
  shows "length r < length s"
proof -
  obtain s1 s2 where "number_int (case s of c # s1 \<Rightarrow> if c = CHR ''-'' then s1 else s | [] \<Rightarrow> []) = Some s1"
    "number_frac s1 = Some s2" "number_exp s2 = Some r"
    using assms by (auto simp: scan_number_def bind_eq_Some_conv)
  then have "length r < length (case s of c # s1 \<Rightarrow> if c = CHR ''-'' then s1 else s | [] \<Rightarrow> [])"
    using number_int_shorter number_frac_shorter number_exp_shorter by (meson order_le_less_trans order_trans)
  then show ?thesis by (cases s) (auto split: if_splits)
qed

lemma parse_scalar_shorter: "parse_scalar c s = Some (v, r) \<Longrightarrow> length r < Suc (length s)"
  by (auto simp: parse_scalar_def scan_literal_def dest!: scan_string_shorter scan_number_shorter
      split: if_splits option.splits)

lemma parse_key_shorter: "parse_key s = Some (k, r) \<Longrightarrow> length r < length s"
  by (auto simp: parse_key_def dest!: scan_string_shorter skip_ws_Cons split: list.splits option.splits if_splits)

lemma parse_sep_shorter: "parse_sep c s = Some (b, r) \<Longrightarrow> length r < length s"
  by (auto simp: parse_sep_def dest: skip_ws_Cons split: list.splits if_splits)

lemma parse_shorter:
  "parse_value d s = Some (v, r) \<Longrightarrow> length r < length s"
  "parse_elements d s = Some (vs, r') \<Longrightarrow> length r' < length s"
  "parse_members d s = Some (ms, r'') \<Longrightarrow> length r'' < length s"
proof (induction d s and d s and d s arbitrary: v r and vs r' and ms r''
    rule: parse_value_parse_elements_parse_members.induct)
  case (1 d s)
  from "1.prems" obtain c s1 where c: "skip_ws s = c # s1"
    by (subst (asm) parse_value.simps) (auto split: list.splits)
  note len = skip_ws_Cons [OF c]
  have scalar: "length r < length s" if "parse_scalar c s1 = Some (v, r)"
    using parse_scalar_shorter [OF that] len by simp
  from "1.prems" show ?case
    by (subst (asm) parse_value.simps)
      (auto simp: c intro: scalar less_trans [OF "1.IH"(1) len] less_trans [OF "1.IH"(2) len]
        less_trans [OF skip_ws_Cons len] split: list.splits if_splits)
next
  case (2 d s)
  from "2.prems" obtain w s1 b s2 where 1: "parse_value d s = Some (w, s1)" "parse_sep (CHR '']'') s1 = Some (b, s2)"
    by (subst (asm) parse_elements.simps) (auto split: option.splits)
  have len: "length s2 < length s"
    using "2.IH"(1) [OF 1(1)] parse_sep_shorter [OF 1(2)] by simp
  from "2.prems" 1 len "2.IH"(2) [OF 1(1) refl 1(2) refl] show ?case
    by (subst (asm) parse_elements.simps) (auto split: if_splits)
next
  case (3 d s)
  from "3.prems" obtain k s1 where k: "parse_key s = Some (k, s1)"
    by (subst (asm) parse_members.simps) (auto split: option.splits)
  note l1 = parse_key_shorter [OF k]
  from "3.prems" k l1 obtain w s2 b s3 where 1: "parse_value d s1 = Some (w, s2)" "parse_sep (CHR ''}'') s2 = Some (b, s3)"
    by (subst (asm) parse_members.simps) (auto simp: Let_def split: option.splits)
  have len: "length s3 < length s"
    using "3.IH"(1) [OF k refl l1 1(1)] parse_sep_shorter [OF 1(2)] l1 by simp
  from "3.prems" k l1 1 len "3.IH"(2) [OF k refl l1 1(1) refl refl 1(2) refl] show ?case
    by (subst (asm) parse_members.simps) (auto simp: Let_def split: if_splits)
qed

text \<open>The equations of the parser without the guards.\<close>

lemma parse_elements_eq:
  "parse_elements d s =
     (case parse_value d s of
        None \<Rightarrow> None
      | Some (v, s1) \<Rightarrow>
          (case parse_sep (CHR '']'') s1 of
             None \<Rightarrow> None
           | Some (comma, s2) \<Rightarrow>
               if \<not> comma then Some ([v], s2) else map_option (apfst ((#) v)) (parse_elements d s2)))"
  by (subst parse_elements.simps) (auto split: option.split dest!: parse_shorter(1) parse_sep_shorter)

lemma parse_members_eq:
  "parse_members d s =
     (case parse_key s of
        None \<Rightarrow> None
      | Some (key, s1) \<Rightarrow>
          (case parse_value d s1 of
             None \<Rightarrow> None
           | Some (v, s2) \<Rightarrow>
               (case parse_sep (CHR ''}'') s2 of
                  None \<Rightarrow> None
                | Some (comma, s3) \<Rightarrow>
                    if \<not> comma then Some ([(key, raw_text (skip_ws s1) s2, v)], s3)
                    else map_option (apfst ((#) (key, raw_text (skip_ws s1) s2, v))) (parse_members d s3))))"
  by (subst parse_members.simps)
    (auto simp: Let_def split: option.split dest!: parse_shorter(1) parse_sep_shorter parse_key_shorter)

subsection \<open>Printing and reading back\<close>

definition plain :: "string \<Rightarrow> bool" where
  "plain t \<longleftrightarrow> list_all (\<lambda>c. 32 \<le> (of_char c :: nat) \<and> (of_char c :: nat) < 128 \<and> c \<noteq> CHR 0x22 \<and> c \<noteq> CHR 0x5C) t"

definition quoted :: "string \<Rightarrow> string" where
  "quoted t = CHR 0x22 # t @ [CHR 0x22]"

lemma scan_string_plain: "plain t \<Longrightarrow> scan_string (t @ CHR 0x22 # r) = Some (t, r)"
  by (induction t) (auto simp: plain_def)

lemma unquote_plain: "plain t \<Longrightarrow> unquote t = Some t"
  by (induction t) (auto simp: plain_def unquote.simps)

lemma member_size: "(k, raw, v) \<in> set ms \<Longrightarrow> size v < Suc (size_list (size_prod size (size_prod size size)) ms)"
proof (induction ms)
  case (Cons m ms)
  then show ?case by (cases m) (auto simp: less_Suc_eq)
qed simp

function print_json :: "json \<Rightarrow> string" where
  "print_json JNull = ''null''"
| "print_json (JBool b) = (if b then ''true'' else ''false'')"
| "print_json JNumber = ''0''"
| "print_json (JString t) = quoted t"
| "print_json (JArray vs) = ''['' @ join '','' (map print_json vs) @ '']''"
| "print_json (JObject ms) =
     ''{'' @ join '','' (map (\<lambda>(k, raw, v). quoted k @ '':'' @ print_json v) ms) @ ''}''"
  by pat_completeness auto
termination
  by (relation "measure size") (auto simp: size_list_estimation' less_Suc_eq_le size_list_estimation dest: member_size)

text \<open>
  A printable value at depth \<open>d\<close>: plain strings, not nested too deep, and the raw texts of an
  object are those of its values.
\<close>

function printable :: "nat \<Rightarrow> json \<Rightarrow> bool" where
  "printable d JNull \<longleftrightarrow> True"
| "printable d (JBool b) \<longleftrightarrow> True"
| "printable d JNumber \<longleftrightarrow> True"
| "printable d (JString t) \<longleftrightarrow> plain t"
| "printable d (JArray vs) \<longleftrightarrow> d < maxNestingDepth \<and> (\<forall>v \<in> set vs. printable (d + 1) v)"
| "printable d (JObject ms) \<longleftrightarrow>
     d < maxNestingDepth \<and> (\<forall>(k, raw, v) \<in> set ms. plain k \<and> raw = print_json v \<and> printable (d + 1) v)"
  by pat_completeness auto
termination
  by (relation "measure (\<lambda>(d, v). size v)") (auto simp: size_list_estimation' less_Suc_eq_le size_list_estimation dest: member_size)

text \<open>What may follow a value: nothing that could continue a number.\<close>

definition ends_value :: "string \<Rightarrow> bool" where
  "ends_value r \<longleftrightarrow> (case r of [] \<Rightarrow> True | c # _ \<Rightarrow> c \<noteq> CHR ''.'' \<and> c \<noteq> CHR ''e'' \<and> c \<noteq> CHR ''E'')"

lemma print_head:
  obtains c t where "print_json v = c # t" and "\<not> is_ws c" and "c \<noteq> CHR '']''"
proof (cases v)
  case (JBool b)
  then show ?thesis using that by (cases b) (auto simp: is_ws_def)
qed (use that in \<open>auto simp: quoted_def is_ws_def\<close>)

lemma skip_ws_print: "skip_ws (print_json v @ r) = print_json v @ r"
  by (rule print_head [of v]) (simp add: skip_ws_def)

lemma raw_text_append: "raw_text (p @ r) r = p"
  by (simp add: raw_text_def)

lemma parse_key_quoted: "plain k \<Longrightarrow> parse_key (quoted k @ '':'' @ s) = Some (k, s)"
  using scan_string_plain [of k "CHR '':'' # s"]
  by (simp add: parse_key_def quoted_def skip_ws_def is_ws_def unquote_plain)

lemma parse_sep_simps:
  "parse_sep c (CHR '','' # s) = Some (True, s)"
  "parse_sep (CHR '']'') (CHR '']'' # s) = Some (False, s)"
  "parse_sep (CHR ''}'') (CHR ''}'' # s) = Some (False, s)"
  by (simp_all add: parse_sep_def skip_ws_def is_ws_def)

lemma parse_elements_print:
  assumes "\<And>v r. v \<in> set vs \<Longrightarrow> ends_value r \<Longrightarrow> parse_value d (print_json v @ r) = Some (v, r)" and "vs \<noteq> []"
  shows "parse_elements d (join '','' (map print_json vs) @ '']'' @ r) = Some (vs, r)"
  using assms
proof (induction vs)
  case (Cons v vs)
  show ?case
  proof (cases vs)
    case Nil
    then show ?thesis
      using Cons.prems(1) [of v "CHR '']'' # r"]
      by (subst parse_elements_eq) (simp add: ends_value_def parse_sep_simps)
  next
    case (Cons w ws)
    let ?rest = "join '','' (map print_json vs) @ '']'' @ r"
    have "parse_value d (print_json v @ CHR '','' # ?rest) = Some (v, CHR '','' # ?rest)"
      using Cons.prems(1) [of v] by (simp add: ends_value_def)
    moreover have "parse_elements d ?rest = Some (vs, r)"
      using Cons.IH Cons.prems(1) Cons by simp
    moreover have "join '','' (map print_json (v # vs)) @ '']'' @ r = print_json v @ CHR '','' # ?rest"
      by (simp add: Cons)
    ultimately show ?thesis
      by (simp only:) (subst parse_elements_eq, simp add: parse_sep_simps)
  qed
qed simp

lemma parse_members_print:
  assumes "\<And>k raw v r. (k, raw, v) \<in> set ms \<Longrightarrow> ends_value r \<Longrightarrow> parse_value d (print_json v @ r) = Some (v, r)"
    and "\<forall>(k, raw, v) \<in> set ms. plain k \<and> raw = print_json v" and "ms \<noteq> []"
  shows "parse_members d (join '','' (map (\<lambda>(k, raw, v). quoted k @ '':'' @ print_json v) ms) @ ''}'' @ r) = Some (ms, r)"
  using assms
proof (induction ms)
  case (Cons m ms)
  obtain k raw v where m: "m = (k, raw, v)" by (cases m)
  have k: "plain k" "raw = print_json v" using Cons.prems(2) by (auto simp: m)
  have one: "parse_value d (print_json v @ r') = Some (v, r')" if "ends_value r'" for r'
    using Cons.prems(1) [of k raw v r'] that by (simp add: m)
  let ?text = "\<lambda>ms. join '','' (map (\<lambda>(k, raw, v). quoted k @ '':'' @ print_json v) ms) @ ''}'' @ r"
  show ?case
  proof (cases ms)
    case Nil
    then have "?text (m # ms) = quoted k @ '':'' @ print_json v @ CHR ''}'' # r" by (simp add: m)
    then show ?thesis
      using one [of "CHR ''}'' # r"] Nil k
      by (simp only:) (subst parse_members_eq, simp add: parse_key_quoted [OF k(1), simplified]
          ends_value_def parse_sep_simps skip_ws_print raw_text_append m)
  next
    case (Cons n ns)
    have "?text (m # ms) = quoted k @ '':'' @ print_json v @ CHR '','' # ?text ms" by (simp add: Cons m)
    moreover have "parse_members d (?text ms) = Some (ms, r)"
      using Cons.IH Cons.prems Cons by (metis list.set_intros(2) list.discI)
    ultimately show ?thesis
      using one [of "CHR '','' # ?text ms"] k
      by (simp only:) (subst parse_members_eq, simp add: parse_key_quoted [OF k(1), simplified]
          ends_value_def parse_sep_simps skip_ws_print raw_text_append m)
  qed
qed simp

lemma parse_container:
  assumes "d < maxNestingDepth"
  shows "parse_value d (CHR ''['' # print_json v @ s) = map_option (apfst JArray) (parse_elements (d + 1) (print_json v @ s))"
    and "parse_value d (CHR ''{'' # CHR 0x22 # s) = map_option (apfst JObject) (parse_members (d + 1) (CHR 0x22 # s))"
proof -
  have sk: "skip_ws (CHR ''['' # t) = CHR ''['' # t" "skip_ws (CHR ''{'' # t) = CHR ''{'' # t"
    "skip_ws (CHR 0x22 # t) = CHR 0x22 # t" for t
    by (simp_all add: skip_ws_def is_ws_def)
  show "parse_value d (CHR ''['' # print_json v @ s) = map_option (apfst JArray) (parse_elements (d + 1) (print_json v @ s))"
  proof (rule print_head [of v])
    fix c t
    assume v: "print_json v = c # t" "\<not> is_ws c" "c \<noteq> CHR '']''"
    then have "skip_ws (c # t @ s) = c # t @ s" by (simp add: skip_ws_def)
    with v assms show ?thesis by (subst parse_value.simps) (simp add: sk)
  qed
  show "parse_value d (CHR ''{'' # CHR 0x22 # s) = map_option (apfst JObject) (parse_members (d + 1) (CHR 0x22 # s))"
    using assms by (subst parse_value.simps) (simp add: sk)
qed

lemma parse_scalar_print:
  "ends_value r \<Longrightarrow> parse_value d (CHR ''0'' # r) = Some (JNumber, r)"
  "parse_value d (''null'' @ r) = Some (JNull, r)"
  "parse_value d (''true'' @ r) = Some (JBool True, r)"
  "parse_value d (''false'' @ r) = Some (JBool False, r)"
  "plain t \<Longrightarrow> parse_value d (quoted t @ r) = Some (JString t, r)"
proof -
  show "ends_value r \<Longrightarrow> parse_value d (CHR ''0'' # r) = Some (JNumber, r)"
    by (subst parse_value.simps) (auto simp: skip_ws_def is_ws_def parse_scalar_def is_digit_def scan_number_def
        number_int_def number_frac_def number_exp_def ends_value_def split: list.splits)
  show "plain t \<Longrightarrow> parse_value d (quoted t @ r) = Some (JString t, r)"
    by (subst parse_value.simps)
      (simp add: quoted_def skip_ws_def is_ws_def parse_scalar_def scan_string_plain unquote_plain)
qed (subst parse_value.simps, simp add: skip_ws_def is_ws_def parse_scalar_def scan_literal_def)+

lemma parse_print:
  "printable d v \<Longrightarrow> ends_value r \<Longrightarrow> parse_value d (print_json v @ r) = Some (v, r)"
proof (induction v arbitrary: d r)
  case (JArray vs)
  have d: "d < maxNestingDepth" using JArray.prems(1) by simp
  show ?case
  proof (cases vs)
    case Nil
    with d show ?thesis by (subst parse_value.simps) (simp add: skip_ws_def is_ws_def)
  next
    case (Cons w ws)
    have "parse_elements (d + 1) (join '','' (map print_json vs) @ '']'' @ r) = Some (vs, r)"
      by (rule parse_elements_print) (use JArray Cons in auto)
    moreover have "\<exists>s. join '','' (map print_json vs) = print_json w @ s"
      by (cases ws) (auto simp: Cons)
    ultimately show ?thesis
      using parse_container(1) [OF d, of w] Cons by fastforce
  qed
next
  case (JObject ms)
  have d: "d < maxNestingDepth" using JObject.prems(1) by simp
  show ?case
  proof (cases ms)
    case Nil
    with d show ?thesis by (subst parse_value.simps) (simp add: skip_ws_def is_ws_def)
  next
    case (Cons m ns)
    let ?text = "join '','' (map (\<lambda>(k, raw, v). quoted k @ '':'' @ print_json v) ms)"
    have "parse_members (d + 1) (?text @ ''}'' @ r) = Some (ms, r)"
      by (rule parse_members_print) (use JObject Cons in fastforce)+
    moreover have "\<exists>s. ?text = CHR 0x22 # s"
      by (cases ns) (auto simp: Cons quoted_def split: prod.split)
    ultimately show ?thesis
      using parse_container(2) [OF d] Cons by fastforce
  qed
qed (use parse_scalar_print in auto)

lemma parse_json_print: "printable 0 v \<Longrightarrow> parse_json (print_json v) = Some v"
  using parse_print [of 0 v "[]"] by (simp add: parse_json_def ends_value_def skip_ws_def)

end
