(* ===== verification/Jsonrpc.thy ===== *)
theory Jsonrpc
  imports Json
begin

text \<open>
  Packages \<open>internal/jsonrpc\<close> and \<open>internal/txdecode\<close>: reading JSON-RPC requests from a body, and the
  transaction from the parameters of \<open>eth_sendRawTransaction\<close>. Decoding follows \<open>encoding/json\<close>: a key
  selects the field with that name or, failing that, the field whose name is equal up to letter case;
  unknown keys are skipped; the last of several values for one field stays; \<open>null\<close> leaves a string
  unchanged; a value of another type is an error. The texts of \<open>encoding/json\<close>'s errors are not
  modelled.
\<close>

record Request =
  Request_JSONRPC :: string
  Request_ID :: string
  Request_Method :: string
  Request_Params :: string

definition zero_request :: Request where
  "zero_request = \<lparr>Request_JSONRPC = [], Request_ID = [], Request_Method = [], Request_Params = []\<rparr>"

text \<open>
  Case folding of a key, as far as it can meet an ASCII name: small letters become capital ones, and so
  do the long s (U+017F) and the Kelvin sign (U+212A).
\<close>

fun fold_name :: "string \<Rightarrow> string" where
  "fold_name [] = []"
| "fold_name (c # s) =
     (if in_range c 97 122 then char_of ((of_char c :: nat) - 32) # fold_name s
      else if c = CHR 0xC5 \<and> s \<noteq> [] \<and> hd s = CHR 0xBF then CHR ''S'' # fold_name (drop 1 s)
      else if c = CHR 0xE2 \<and> take 2 s = [CHR 0x84, CHR 0xAA] then CHR ''K'' # fold_name (drop 2 s)
      else c # fold_name s)"

datatype field = JSONRPC | ID | Method | Params

definition field_name :: "field \<Rightarrow> string" where
  "field_name f =
     (case f of JSONRPC \<Rightarrow> ''jsonrpc'' | ID \<Rightarrow> ''id'' | Method \<Rightarrow> ''method'' | Params \<Rightarrow> ''params'')"

definition request_fields :: "field list" where
  "request_fields = [JSONRPC, ID, Method, Params]"

definition field_of :: "string \<Rightarrow> field option" where
  "field_of key =
     (case find (\<lambda>f. field_name f = key) request_fields of
        Some f \<Rightarrow> Some f
      | None \<Rightarrow> find (\<lambda>f. fold_name (field_name f) = fold_name key) request_fields)"

text \<open>Storing a value in a string field; \<open>None\<close> is a type error.\<close>

definition store_string :: "string \<Rightarrow> json \<Rightarrow> string option" where
  "store_string old v = (case v of JString t \<Rightarrow> Some t | JNull \<Rightarrow> Some old | _ \<Rightarrow> None)"

definition store_member :: "string \<times> string \<times> json \<Rightarrow> Request \<Rightarrow> Request option" where
  "store_member m r =
     (case m of (key, raw, v) \<Rightarrow>
        (case field_of key of
           None \<Rightarrow> Some r
         | Some JSONRPC \<Rightarrow> map_option (\<lambda>t. r\<lparr>Request_JSONRPC := t\<rparr>) (store_string (Request_JSONRPC r) v)
         | Some Method \<Rightarrow> map_option (\<lambda>t. r\<lparr>Request_Method := t\<rparr>) (store_string (Request_Method r) v)
         | Some ID \<Rightarrow> Some (r\<lparr>Request_ID := raw\<rparr>)
         | Some Params \<Rightarrow> Some (r\<lparr>Request_Params := raw\<rparr>)))"

fun store_members :: "(string \<times> string \<times> json) list \<Rightarrow> Request \<Rightarrow> Request option" where
  "store_members [] r = Some r"
| "store_members (m # ms) r = (case store_member m r of None \<Rightarrow> None | Some r' \<Rightarrow> store_members ms r')"

definition decode_request :: "json \<Rightarrow> Request option" where
  "decode_request v =
     (case v of
        JNull \<Rightarrow> Some zero_request
      | JObject ms \<Rightarrow> store_members ms zero_request
      | _ \<Rightarrow> None)"

fun decode_all :: "(json \<Rightarrow> 'a option) \<Rightarrow> json list \<Rightarrow> 'a list option" where
  "decode_all dec [] = Some []"
| "decode_all dec (v # vs) =
     (case (dec v, decode_all dec vs) of (Some x, Some xs) \<Rightarrow> Some (x # xs) | _ \<Rightarrow> None)"

definition json_error :: err where
  "json_error = OtherError ''json''"

text \<open>A read of \<open>trimmed[0]\<close> out of range would be a panic (\<open>None\<close>).\<close>

definition ParseRequests :: "string \<Rightarrow> (err + Request list) option" where
  "ParseRequests body =
     (let trimmed = TrimSpace body
      in if length trimmed = 0 then Some (Inl (ErrText ''empty request body''))
         else do {
           c \<leftarrow> elem_at trimmed 0;
           if c = CHR ''['' then
             Some (case parse_json trimmed of
                Some (JArray vs) \<Rightarrow>
                  (case decode_all decode_request vs of
                     None \<Rightarrow> Inl json_error
                   | Some batch \<Rightarrow> if length batch = 0 then Inl (ErrText ''empty batch'') else Inr batch)
              | _ \<Rightarrow> Inl json_error)
           else
             Some (case parse_json trimmed of
                None \<Rightarrow> Inl json_error
              | Some v \<Rightarrow> (case decode_request v of None \<Rightarrow> Inl json_error | Some req \<Rightarrow> Inr [req]))
         })"

definition CodeParseError :: int where
  "CodeParseError = -32700"

definition CodeInvalidParams :: int where
  "CodeInvalidParams = -32602"

definition CodeTxRejected :: int where
  "CodeTxRejected = -32003"

text \<open>What the client receives: an HTTP error, a JSON-RPC error (with its id), or the node's answer.\<close>

datatype Response =
    HTTPError int string
  | RPCErrorResponse string int string
  | Forwarded string

definition WriteError :: "string \<Rightarrow> int \<Rightarrow> string \<Rightarrow> Response" where
  "WriteError i code message =
     (let i' = (if length i = 0 then ''null'' else i) in RPCErrorResponse i' code message)"

subsection \<open>txdecode\<close>

text \<open>\<open>json.Unmarshal\<close> into a slice of strings.\<close>

definition decode_strings :: "json \<Rightarrow> string list option" where
  "decode_strings v =
     (case v of
        JNull \<Rightarrow> Some []
      | JArray vs \<Rightarrow> decode_all (store_string []) vs
      | _ \<Rightarrow> None)"

text \<open>A read of \<open>args[0]\<close> out of range would be a panic (\<open>None\<close>).\<close>

definition DecodeRawTransaction :: "geth \<Rightarrow> string \<Rightarrow> (err + Decoded) option" where
  "DecodeRawTransaction G params =
     (case Option.bind (parse_json params) decode_strings of
        None \<Rightarrow> Some (Inl (Wrapped ''params must be an array of strings: '' json_error ''''))
      | Some args \<Rightarrow>
          if length args \<noteq> 1
          then Some (Inl (ErrText (''expected exactly 1 param, got '' @ show_nat (length args))))
          else do {
            arg \<leftarrow> elem_at args 0;
            Some (case hexutil_Decode G arg of
               Inl e \<Rightarrow> Inl (Wrapped ''invalid hex: '' e '''')
             | Inr raw \<Rightarrow>
                 (case UnmarshalBinary G raw of
                    Inl e \<Rightarrow> Inl (Wrapped ''invalid transaction encoding: '' e '''')
                  | Inr tx \<Rightarrow>
                      (case Sender G (Tx_ChainId tx) tx of
                         Inl e \<Rightarrow> Inl (Wrapped ''invalid signature: '' e '''')
                       | Inr from_addr \<Rightarrow> Inr \<lparr>Decoded_Tx = tx, Decoded_From = from_addr\<rparr>)))
          })"

subsection \<open>No panic\<close>

lemma ParseRequests_defined: "\<exists>r. ParseRequests body = Some r"
  by (simp add: ParseRequests_def Let_def)

lemma DecodeRawTransaction_defined: "\<exists>r. DecodeRawTransaction G params = Some r"
  by (simp add: DecodeRawTransaction_def split: option.split)

subsection \<open>Requests read back\<close>

text \<open>A request as a JSON value: an identifier, a method name and parameters.\<close>

record call =
  call_id :: json
  call_method :: string
  call_params :: json

definition member :: "string \<Rightarrow> json \<Rightarrow> string \<times> string \<times> json" where
  "member k v = (k, print_json v, v)"

definition call_json :: "call \<Rightarrow> json" where
  "call_json c =
     JObject [member ''jsonrpc'' (JString ''2.0''), member ''id'' (call_id c),
       member ''method'' (JString (call_method c)), member ''params'' (call_params c)]"

definition call_request :: "call \<Rightarrow> Request" where
  "call_request c =
     \<lparr>Request_JSONRPC = ''2.0'', Request_ID = print_json (call_id c), Request_Method = call_method c,
      Request_Params = print_json (call_params c)\<rparr>"

text \<open>A call that is printed plainly at depth \<open>d\<close>.\<close>

definition call_ok :: "nat \<Rightarrow> call \<Rightarrow> bool" where
  "call_ok d c \<longleftrightarrow> printable d (call_id c) \<and> plain (call_method c) \<and> printable d (call_params c)"

lemma field_of_names:
  "field_of ''jsonrpc'' = Some JSONRPC" "field_of ''id'' = Some ID"
  "field_of ''method'' = Some Method" "field_of ''params'' = Some Params"
  by (simp_all add: field_of_def request_fields_def field_name_def)

lemma decode_call_json: "decode_request (call_json c) = Some (call_request c)"
  by (simp add: decode_request_def call_json_def member_def store_member_def field_of_names store_string_def
      zero_request_def call_request_def)

lemma printable_call_json: "call_ok (d + 1) c \<Longrightarrow> d < maxNestingDepth \<Longrightarrow> printable d (call_json c)"
  by (auto simp: call_ok_def call_json_def member_def plain_def)

lemma decode_all_map: "(\<And>x. x \<in> set xs \<Longrightarrow> dec (f x) = Some (g x)) \<Longrightarrow> decode_all dec (map f xs) = Some (map g xs)"
  by (induction xs) simp_all

text \<open>A text that starts and ends with a bracket has no white space to trim.\<close>

lemma spaces_brackets:
  "\<forall>c \<in> set ''[]{}''. (\<forall>p \<in> set spaces. hd p \<noteq> c) \<and> (\<forall>p \<in> set (map rev spaces). hd p \<noteq> c)"
  by (simp add: spaces_def)

lemma TrimSpace_bracketed:
  assumes "c \<in> set ''[]{}''" and "e \<in> set ''[]{}''"
  shows "TrimSpace (c # s @ [e]) = c # s @ [e]"
proof -
  have "trim_start spaces (c # s @ [e]) = c # s @ [e]"
    using assms(1) spaces_brackets by (intro trim_start_stop) blast
  moreover have "trim_start (map rev spaces) (e # rev s @ [c]) = e # rev s @ [c]"
    using assms(2) spaces_brackets by (intro trim_start_stop) blast
  ultimately show ?thesis by (simp add: TrimSpace_def)
qed

lemma nesting_positive: "d < 5 \<Longrightarrow> d < maxNestingDepth"
  by (simp add: maxNestingDepth_def)

lemma ParseRequests_single:
  assumes "call_ok 1 c"
  shows "ParseRequests (print_json (call_json c)) = Some (Inr [call_request c])"
proof -
  have "printable 0 (call_json c)"
    using assms nesting_positive [of 0] by (intro printable_call_json) simp_all
  then have p: "parse_json (print_json (call_json c)) = Some (call_json c)" by (rule parse_json_print)
  obtain t where shape: "print_json (call_json c) = CHR ''{'' # t @ [CHR ''}'']"
    by (simp add: call_json_def)
  have "TrimSpace (print_json (call_json c)) = print_json (call_json c)"
    unfolding shape by (rule TrimSpace_bracketed) simp_all
  with p shape show "ParseRequests (print_json (call_json c)) = Some (Inr [call_request c])"
    by (simp add: ParseRequests_def Let_def decode_call_json)
qed

text \<open>
  C16. Requests are read back exactly: a batch of calls written as JSON is parsed to the same calls in
  the same order, and a single call to a list of one, with the method, and the raw texts of the
  identifier and the parameters unchanged.
\<close>

theorem ParseRequests_roundtrip:
  assumes "\<forall>c \<in> set cs. call_ok 2 c" and "cs \<noteq> []" and "call_ok 1 c"
  shows "ParseRequests (print_json (JArray (map call_json cs))) = Some (Inr (map call_request cs)) \<and>
         ParseRequests (print_json (call_json c)) = Some (Inr [call_request c])"
proof
  have "printable 0 (JArray (map call_json cs))"
    using assms(1) nesting_positive [of 0] nesting_positive [of 1]
    by (auto intro!: printable_call_json simp: numeral_2_eq_2)
  then have p: "parse_json (print_json (JArray (map call_json cs))) = Some (JArray (map call_json cs))"
    by (rule parse_json_print)
  have d: "decode_all decode_request (map call_json cs) = Some (map call_request cs)"
    by (rule decode_all_map) (rule decode_call_json)
  let ?t = "join '','' (map print_json (map call_json cs))"
  have shape: "print_json (JArray (map call_json cs)) = CHR ''['' # ?t @ [CHR '']'']" by simp
  have "TrimSpace (print_json (JArray (map call_json cs))) = print_json (JArray (map call_json cs))"
    unfolding shape by (rule TrimSpace_bracketed) simp_all
  with p d assms(2) show "ParseRequests (print_json (JArray (map call_json cs))) = Some (Inr (map call_request cs))"
    by (simp add: ParseRequests_def Let_def)
next
  show "ParseRequests (print_json (call_json c)) = Some (Inr [call_request c])"
    using assms(3) by (rule ParseRequests_single)
qed

definition example_call :: call where
  "example_call = \<lparr>call_id = JNumber, call_method = ''eth_sendRawTransaction'', call_params = JArray [JString ''0x02'']\<rparr>"

lemma example_call_ok: "call_ok 1 example_call" "call_ok 2 example_call"
  by (simp_all add: call_ok_def example_call_def plain_def maxNestingDepth_def)

theorem ParseRequests_roundtrip_witness:
  "ParseRequests (print_json (JArray (map call_json [example_call]))) = Some (Inr [call_request example_call]) \<and>
   Request_Method (call_request example_call) = ''eth_sendRawTransaction'' \<and>
   Request_Params (call_request example_call) = print_json (JArray [JString ''0x02''])"
  using ParseRequests_roundtrip [of "[example_call]" example_call] example_call_ok
  by (simp add: call_request_def example_call_def)

subsection \<open>Which value of a field stays\<close>

definition values_of :: "field \<Rightarrow> (string \<times> string \<times> json) list \<Rightarrow> (string \<times> json) list" where
  "values_of f ms = map snd (filter (\<lambda>m. field_of (fst m) = Some f) ms)"

fun string_values :: "(string \<times> json) list \<Rightarrow> string list" where
  "string_values [] = []"
| "string_values ((raw, JString t) # vs) = t # string_values vs"
| "string_values (_ # vs) = string_values vs"

definition last_or :: "'a \<Rightarrow> 'a list \<Rightarrow> 'a" where
  "last_or x xs = (if xs = [] then x else last xs)"

lemma last_or_simps [simp]: "last_or x [] = x" "last_or x (y # ys) = last_or y ys"
  by (simp_all add: last_or_def)

lemma store_members_last:
  "store_members ms r = Some r' \<Longrightarrow>
     Request_Method r' = last_or (Request_Method r) (string_values (values_of Method ms)) \<and>
     Request_Params r' = last_or (Request_Params r) (map fst (values_of Params ms)) \<and>
     Request_ID r' = last_or (Request_ID r) (map fst (values_of ID ms))"
proof (induction ms arbitrary: r)
  case Nil
  then show ?case by (simp add: values_of_def)
next
  case (Cons m ms)
  obtain key raw v where m: "m = (key, raw, v)" by (cases m)
  from Cons.prems obtain r1 where r1: "store_member m r = Some r1" "store_members ms r1 = Some r'"
    by (auto split: option.splits)
  from Cons.IH [OF r1(2)] r1(1) show ?case
    by (cases "field_of key"; cases v)
      (auto simp: m store_member_def values_of_def store_string_def split: field.splits)
qed

text \<open>
  C37. How an object with repeated keys, or keys in another letter case, is read: the method is the
  last string given for a key that names the method field up to letter case, and the parameters and
  the identifier are the raw texts of the last such values.
\<close>

theorem decode_request_last:
  assumes "decode_request (JObject ms) = Some r"
  shows "Request_Method r = last_or '''' (string_values (values_of Method ms)) \<and>
         Request_Params r = last_or '''' (map fst (values_of Params ms)) \<and>
         Request_ID r = last_or '''' (map fst (values_of ID ms))"
  using store_members_last [of ms zero_request r] assms by (simp add: decode_request_def zero_request_def)

lemma field_of_METHOD: "field_of ''METHOD'' = Some Method"
  by (simp add: field_of_def request_fields_def field_name_def in_range_def char_of_eq_iff)

theorem decode_request_last_witness:
  "\<exists>r. decode_request (JObject [member ''method'' (JString ''a''), member ''METHOD'' (JString ''b'')]) = Some r \<and>
     Request_Method r = ''b''"
proof -
  let ?ms = "[member ''method'' (JString ''a''), member ''METHOD'' (JString ''b'')]"
  obtain r where r: "decode_request (JObject ?ms) = Some r"
    by (simp add: decode_request_def member_def store_member_def field_of_names field_of_METHOD store_string_def)
  from decode_request_last [OF r] r show ?thesis
    by (auto simp: values_of_def member_def field_of_names field_of_METHOD)
qed

end
