(* ===== verification/Frames.thy ===== *)
theory Frames
  imports Trace
begin

text \<open>
  Flattened frames (\<open>analysis.Frame\<close>, \<open>IsCall\<close>, \<open>IsCreate\<close>, \<open>SubtreeEnd\<close> of
  \<open>internal/analysis/analysis.go\<close>). The lemmas relate the flat list with depths to the call tree:
  \<open>SubtreeEnd\<close> finds exactly the end of a frame's descendants. It panics (\<open>None\<close>) only for an index
  out of range.
\<close>

record Frame =
  Frame_Type :: string
  Frame_From :: address
  Frame_To :: address
  Frame_Value :: "int option"
  Frame_Depth :: nat

definition IsCall :: "Frame \<Rightarrow> bool" where
  "IsCall f \<longleftrightarrow>
     Frame_Type f \<in> {''CALL'', ''STATICCALL'', ''DELEGATECALL'', ''CALLCODE''}"

definition IsCreate :: "Frame \<Rightarrow> bool" where
  "IsCreate f \<longleftrightarrow> Frame_Type f = ''CREATE'' \<or> Frame_Type f = ''CREATE2''"

text \<open>The loop of \<open>SubtreeEnd\<close>: its condition reads \<open>Frames[j]\<close> and \<open>Frames[i]\<close> once \<open>j\<close> is in range.\<close>

function subtree_loop :: "Frame list \<Rightarrow> nat \<Rightarrow> nat \<Rightarrow> nat option" where
  "subtree_loop frames i j =
     (if j < length frames
      then do {
        frame_j \<leftarrow> elem_at frames j;
        frame_i \<leftarrow> elem_at frames i;
        if Frame_Depth frame_j > Frame_Depth frame_i then subtree_loop frames i (j + 1) else Some j
      }
      else Some j)"
  by pat_completeness auto
termination
  by (relation "measure (\<lambda>(frames, i, j). length frames - j)") auto

declare subtree_loop.simps [simp del]

definition SubtreeEnd :: "Frame list \<Rightarrow> nat \<Rightarrow> nat option" where
  "SubtreeEnd frames i = subtree_loop frames i (i + 1)"

lemma IsCreate_not_IsCall: "IsCreate f \<Longrightarrow> \<not> IsCall f"
  by (auto simp: IsCreate_def IsCall_def)

lemma subtree_loop_in_range:
  assumes "i < length frames"
  shows "subtree_loop frames i j =
    (if j < length frames \<and> Frame_Depth (frames ! i) < Frame_Depth (frames ! j)
     then subtree_loop frames i (j + 1) else Some j)"
  using assms by (simp add: subtree_loop.simps [of frames i j])

lemma subtree_loop_skip:
  assumes "i < length frames" and "j + n \<le> length frames"
    and "\<forall>k < n. Frame_Depth (frames ! i) < Frame_Depth (frames ! (j + k))"
  shows "subtree_loop frames i j = subtree_loop frames i (j + n)"
  using assms(2,3)
proof (induction n arbitrary: j)
  case 0
  then show ?case by simp
next
  case (Suc n)
  have "Frame_Depth (frames ! i) < Frame_Depth (frames ! j)" using Suc.prems(2) by force
  with Suc.prems(1) have "subtree_loop frames i j = subtree_loop frames i (j + 1)"
    by (simp add: subtree_loop_in_range [OF assms(1), of j])
  also have "\<dots> = subtree_loop frames i (j + 1 + n)"
  proof (rule Suc.IH)
    show "j + 1 + n \<le> length frames" using Suc.prems(1) by simp
    show "\<forall>k < n. Frame_Depth (frames ! i) < Frame_Depth (frames ! (j + 1 + k))"
      using Suc.prems(2) by (metis Suc_less_eq add.assoc plus_1_eq_Suc)
  qed
  finally show ?case by simp
qed

lemma SubtreeEnd_split:
  assumes "frames = xs @ f # sub @ ys"
    and "\<forall>g \<in> set sub. Frame_Depth f < Frame_Depth g"
    and "ys = [] \<or> Frame_Depth (hd ys) \<le> Frame_Depth f"
  shows "SubtreeEnd frames (length xs) = Some (Suc (length xs) + length sub)"
proof -
  have i: "length xs < length frames" "frames ! length xs = f" by (simp_all add: assms(1))
  have "subtree_loop frames (length xs) (Suc (length xs)) =
      subtree_loop frames (length xs) (Suc (length xs) + length sub)"
    by (rule subtree_loop_skip [OF i(1)]) (use assms(1,2) in \<open>auto simp: nth_append nth_Cons'\<close>)
  also have "\<dots> = Some (Suc (length xs) + length sub)"
    using assms(1,3)
    by (subst subtree_loop_in_range [OF i(1)]) (auto simp: nth_append nth_Cons' hd_conv_nth)
  finally show ?thesis by (simp add: SubtreeEnd_def)
qed

lemma subtree_loop_spec:
  assumes "i < length frames"
  shows "\<exists>e. subtree_loop frames i j = Some e \<and> j \<le> e \<and>
    (\<forall>k. j \<le> k \<and> k < e \<longrightarrow> Frame_Depth (frames ! i) < Frame_Depth (frames ! k)) \<and>
    (e < length frames \<longrightarrow> Frame_Depth (frames ! e) \<le> Frame_Depth (frames ! i))"
proof (induction "length frames - j" arbitrary: j rule: less_induct)
  case less
  show ?case
  proof (cases "j < length frames \<and> Frame_Depth (frames ! i) < Frame_Depth (frames ! j)")
    case True
    then have "length frames - (j + 1) < length frames - j" by linarith
    from less [OF this] obtain e where e: "subtree_loop frames i (j + 1) = Some e" "j + 1 \<le> e"
      "\<forall>k. j + 1 \<le> k \<and> k < e \<longrightarrow> Frame_Depth (frames ! i) < Frame_Depth (frames ! k)"
      "e < length frames \<longrightarrow> Frame_Depth (frames ! e) \<le> Frame_Depth (frames ! i)"
      by blast
    have "Frame_Depth (frames ! i) < Frame_Depth (frames ! k)" if "j \<le> k" "k < e" for k
      using that True e(3) by (cases "k = j") auto
    with True e show ?thesis by (simp add: subtree_loop_in_range [OF assms, of j])
  next
    case False
    then show ?thesis by (auto simp: subtree_loop_in_range [OF assms, of j])
  qed
qed

text \<open>\<open>SubtreeEnd i\<close> is the first later position that is not deeper than \<open>i\<close>.\<close>

lemma SubtreeEnd_le:
  assumes "i < length frames"
  obtains e where "SubtreeEnd frames i = Some e"
    and "\<And>j. j < length frames \<Longrightarrow>
      e \<le> j \<longleftrightarrow> (\<exists>k. i < k \<and> k \<le> j \<and> Frame_Depth (frames ! k) \<le> Frame_Depth (frames ! i))"
proof -
  from subtree_loop_spec [OF assms, of "i + 1"] obtain e where
    e: "SubtreeEnd frames i = Some e" "i < e"
    "\<And>k. i < k \<Longrightarrow> k < e \<Longrightarrow> Frame_Depth (frames ! i) < Frame_Depth (frames ! k)"
    "e < length frames \<Longrightarrow> Frame_Depth (frames ! e) \<le> Frame_Depth (frames ! i)"
    by (auto simp: SubtreeEnd_def)
  have "e \<le> j \<longleftrightarrow> (\<exists>k. i < k \<and> k \<le> j \<and> Frame_Depth (frames ! k) \<le> Frame_Depth (frames ! i))"
    if "j < length frames" for j
    using e(2-4) that by (metis le_less_trans linorder_not_less)
  with e(1) show ?thesis by (rule that)
qed

subsection \<open>Subtrees in the list of live frames\<close>

text \<open>
  Splitting the pre-order list at a frame: what follows is first the live frames below it, then
  frames that are not below it.
\<close>

definition split_at_frame :: "(nat \<times> CallFrame) list \<Rightarrow> nat \<times> CallFrame \<Rightarrow> bool" where
  "split_at_frame zs e \<longleftrightarrow>
     (\<exists>ys. zs = live_calls (Suc (fst e)) (Call_Calls (snd e)) @ ys \<and>
           (ys = [] \<or> fst (hd ys) \<le> fst e))"

lemma split_at_frame_append:
  assumes "split_at_frame zs e" and "ys = [] \<or> fst (hd ys) \<le> fst e"
  shows "split_at_frame (zs @ ys) e"
proof -
  from assms(1) obtain us where
    us: "zs = live_calls (Suc (fst e)) (Call_Calls (snd e)) @ us" "us = [] \<or> fst (hd us) \<le> fst e"
    by (auto simp: split_at_frame_def)
  have "us @ ys = [] \<or> fst (hd (us @ ys)) \<le> fst e"
    using us(2) assms(2) by (cases us) auto
  with us(1) show ?thesis
    unfolding split_at_frame_def by (intro exI [of _ "us @ ys"]) simp
qed

lemma hd_live_calls: "live_calls d cs = [] \<or> fst (hd (live_calls d cs)) = d"
  by (induction cs) (auto simp: live_cases)

lemma live_split:
  "live d c = xs @ e # zs \<Longrightarrow> split_at_frame zs e"
  and live_calls_split:
  "live_calls d cs = xs @ e # zs \<Longrightarrow> split_at_frame zs e"
proof (induction c and cs arbitrary: d xs e zs and d xs e zs rule: live.induct live_calls.induct)
  case (CallFrame ty sender to val gas used inp outp er logs calls)
  show ?case
  proof (cases xs)
    case Nil
    with CallFrame.prems show ?thesis
      by (auto simp: split_at_frame_def split: if_splits)
  next
    case (Cons x xs')
    with CallFrame.prems have "live_calls (Suc d) calls = xs' @ e # zs"
      by (simp split: if_splits)
    then show ?thesis by (rule CallFrame.IH)
  qed
next
  case Nil_CallFrame
  then show ?case by simp
next
  case (Cons_CallFrame c cs)
  from Cons_CallFrame.prems have eq: "live d c @ live_calls d cs = xs @ e # zs" by simp
  then consider (left) us where "live d c = xs @ e # us" "zs = us @ live_calls d cs"
    | (right) us where "live_calls d cs = us @ e # zs"
    by (auto simp: append_eq_append_conv2 Cons_eq_append_conv append_eq_Cons_conv)
  then show ?case
  proof cases
    case left
    have "split_at_frame us e" by (rule Cons_CallFrame.IH(1)) (rule left(1))
    moreover have "d \<le> fst e"
      using live_depth [of "fst e" "snd e" d c] left(1) by simp
    then have "live_calls d cs = [] \<or> fst (hd (live_calls d cs)) \<le> fst e"
      using hd_live_calls [of d cs] by auto
    ultimately show ?thesis unfolding left(2) by (rule split_at_frame_append)
  next
    case right
    then show ?thesis by (rule Cons_CallFrame.IH(2))
  qed
qed

end
