(* ===== verification/Events.thy ===== *)
theory Events
  imports Geth
begin

text \<open>
  Package \<open>internal/events\<close>: decoding the contract events the rules look for from raw logs
  (\<open>transfer.go\<close>, \<open>approval.go\<close>, \<open>events.go\<close>, \<open>flashloan.go\<close>). A decoder returns \<open>None\<close> where the
  Go function returns \<open>false\<close>. The lemmas show the round trip with the event's ABI layout, that
  no log is taken for two kinds of event, and that privilege events are read the same way however
  their arguments are split between indexed topics and data.
\<close>

subsection \<open>Arguments\<close>

text \<open>The bytes of a \<open>common.Hash\<close>, an array of 32 bytes.\<close>

definition hash_bytes :: "hash \<Rightarrow> byte list" where
  "hash_bytes w = be_bytes 32 (uint w)"

text \<open>\<open>word[12:]\<close> is the slice of the last 20 bytes.\<close>

definition addressArg :: "geth \<Rightarrow> hash \<Rightarrow> address" where
  "addressArg G word = BytesToAddress G (drop 12 (hash_bytes word))"

text \<open>The loop of \<open>eventArgs\<close> over the 32-byte words of \<open>data\<close>.\<close>

function args_loop :: "geth \<Rightarrow> byte list \<Rightarrow> nat \<Rightarrow> hash list \<Rightarrow> hash list option" where
  "args_loop G data i args =
     (if i < length data
      then do {
        word \<leftarrow> subslice data i (i + 32);
        args_loop G data (i + 32) (args @ [BytesToHash G word])
      }
      else Some args)"
  by pat_completeness auto
termination
  by (relation "measure (\<lambda>(G, data, i, args). length data - i)") auto

declare args_loop.simps [simp del]

definition eventArgs :: "geth \<Rightarrow> hash list \<Rightarrow> byte list \<Rightarrow> hash list option option" where
  "eventArgs G indexed data =
     (if length data mod 32 \<noteq> 0 then Some None
      else do {
        args \<leftarrow> args_loop G data 0 ([] @ indexed);
        Some (Some args)
      })"

subsection \<open>Token transfers (transfer.go)\<close>

datatype TokenStandard = ERC20 | ERC721

record Transfer =
  Transfer_Standard :: TokenStandard
  Transfer_Token :: address
  Transfer_From :: address
  Transfer_To :: address
  Transfer_Amount :: "int option"
  Transfer_TokenID :: "int option"

definition transferTopic :: "geth \<Rightarrow> hash" where
  "transferTopic G = Keccak256Hash G (str_bytes ''Transfer(address,address,uint256)'')"

definition DecodeTransfer ::
  "geth \<Rightarrow> address \<Rightarrow> hash list \<Rightarrow> byte list \<Rightarrow> Transfer option option" where
  "DecodeTransfer G token topics data =
     (if length topics = 0 then Some None
      else do {
        topic0 \<leftarrow> elem_at topics 0;
        if topic0 \<noteq> transferTopic G then Some None
        else if length topics = 3 \<and> length data = 32 then do {
          topic1 \<leftarrow> elem_at topics 1;
          topic2 \<leftarrow> elem_at topics 2;
          Some (Some \<lparr>Transfer_Standard = ERC20, Transfer_Token = token,
            Transfer_From = addressArg G topic1, Transfer_To = addressArg G topic2,
            Transfer_Amount = Some (be_int data), Transfer_TokenID = None\<rparr>)
        }
        else if length topics = 4 \<and> length data = 0 then do {
          topic1 \<leftarrow> elem_at topics 1;
          topic2 \<leftarrow> elem_at topics 2;
          topic3 \<leftarrow> elem_at topics 3;
          Some (Some \<lparr>Transfer_Standard = ERC721, Transfer_Token = token,
            Transfer_From = addressArg G topic1, Transfer_To = addressArg G topic2,
            Transfer_Amount = None, Transfer_TokenID = Some (Hash_Big G topic3)\<rparr>)
        }
        else Some None
      })"

subsection \<open>Approvals (approval.go)\<close>

record Approval =
  Approval_Token :: address
  Approval_Owner :: address
  Approval_Spender :: address
  Approval_Amount :: int

record ApprovalForAll =
  ApprovalForAll_Collection :: address
  ApprovalForAll_Owner :: address
  ApprovalForAll_Operator :: address
  ApprovalForAll_Approved :: bool

definition approvalTopic :: "geth \<Rightarrow> hash" where
  "approvalTopic G = Keccak256Hash G (str_bytes ''Approval(address,address,uint256)'')"

definition approvalForAllTopic :: "geth \<Rightarrow> hash" where
  "approvalForAllTopic G = Keccak256Hash G (str_bytes ''ApprovalForAll(address,address,bool)'')"

definition DecodeApproval ::
  "geth \<Rightarrow> address \<Rightarrow> hash list \<Rightarrow> byte list \<Rightarrow> Approval option option" where
  "DecodeApproval G token topics data =
     (if length topics \<noteq> 3 then Some None
      else do {
        topic0 \<leftarrow> elem_at topics 0;
        if topic0 \<noteq> approvalTopic G \<or> length data \<noteq> 32 then Some None
        else do {
          topic1 \<leftarrow> elem_at topics 1;
          topic2 \<leftarrow> elem_at topics 2;
          Some (Some \<lparr>Approval_Token = token, Approval_Owner = addressArg G topic1,
            Approval_Spender = addressArg G topic2, Approval_Amount = be_int data\<rparr>)
        }
      })"

definition DecodeApprovalForAll ::
  "geth \<Rightarrow> address \<Rightarrow> hash list \<Rightarrow> byte list \<Rightarrow> ApprovalForAll option option" where
  "DecodeApprovalForAll G collection topics data =
     (if length topics \<noteq> 3 then Some None
      else do {
        topic0 \<leftarrow> elem_at topics 0;
        if topic0 \<noteq> approvalForAllTopic G \<or> length data \<noteq> 32 then Some None
        else do {
          topic1 \<leftarrow> elem_at topics 1;
          topic2 \<leftarrow> elem_at topics 2;
          Some (Some \<lparr>ApprovalForAll_Collection = collection,
            ApprovalForAll_Owner = addressArg G topic1,
            ApprovalForAll_Operator = addressArg G topic2,
            ApprovalForAll_Approved = (BytesToHash G data \<noteq> 0)\<rparr>)
        }
      })"

subsection \<open>Privilege changes (events.go)\<close>

type_synonym PrivilegeKind = string

definition OwnershipTransferred :: PrivilegeKind where
  "OwnershipTransferred = ''OwnershipTransferred''"

definition Upgraded :: PrivilegeKind where
  "Upgraded = ''Upgraded''"

definition AdminChanged :: PrivilegeKind where
  "AdminChanged = ''AdminChanged''"

definition RoleGranted :: PrivilegeKind where
  "RoleGranted = ''RoleGranted''"

record PrivilegeChange =
  PrivilegeChange_Kind :: PrivilegeKind
  PrivilegeChange_Contract :: address
  PrivilegeChange_Subject :: address
  PrivilegeChange_Previous :: address
  PrivilegeChange_Role :: hash

text \<open>\<open>PrivilegeChange{}\<close>: every field zero.\<close>

definition zero_change :: PrivilegeChange where
  "zero_change = \<lparr>PrivilegeChange_Kind = '''', PrivilegeChange_Contract = 0,
     PrivilegeChange_Subject = 0, PrivilegeChange_Previous = 0, PrivilegeChange_Role = 0\<rparr>"

record privilegeEvent =
  pe_kind :: PrivilegeKind
  pe_nargs :: nat
  pe_build :: "hash list \<Rightarrow> PrivilegeChange option"

definition build_owner_change :: "geth \<Rightarrow> hash list \<Rightarrow> PrivilegeChange option" where
  "build_owner_change G a =
     do {
       arg0 \<leftarrow> elem_at a 0;
       arg1 \<leftarrow> elem_at a 1;
       Some (zero_change\<lparr>PrivilegeChange_Previous := addressArg G arg0,
                         PrivilegeChange_Subject := addressArg G arg1\<rparr>)
     }"

definition build_upgrade :: "geth \<Rightarrow> hash list \<Rightarrow> PrivilegeChange option" where
  "build_upgrade G a =
     do {
       arg0 \<leftarrow> elem_at a 0;
       Some (zero_change\<lparr>PrivilegeChange_Subject := addressArg G arg0\<rparr>)
     }"

definition build_role_grant :: "geth \<Rightarrow> hash list \<Rightarrow> PrivilegeChange option" where
  "build_role_grant G a =
     do {
       arg0 \<leftarrow> elem_at a 0;
       arg1 \<leftarrow> elem_at a 1;
       Some (zero_change\<lparr>PrivilegeChange_Role := arg0, PrivilegeChange_Subject := addressArg G arg1\<rparr>)
     }"

definition privilegeEvents :: "geth \<Rightarrow> hash \<rightharpoonup> privilegeEvent" where
  "privilegeEvents G =
     [Keccak256Hash G (str_bytes ''OwnershipTransferred(address,address)'') \<mapsto>
        \<lparr>pe_kind = OwnershipTransferred, pe_nargs = 2, pe_build = build_owner_change G\<rparr>,
      Keccak256Hash G (str_bytes ''Upgraded(address)'') \<mapsto>
        \<lparr>pe_kind = Upgraded, pe_nargs = 1, pe_build = build_upgrade G\<rparr>,
      Keccak256Hash G (str_bytes ''AdminChanged(address,address)'') \<mapsto>
        \<lparr>pe_kind = AdminChanged, pe_nargs = 2, pe_build = build_owner_change G\<rparr>,
      Keccak256Hash G (str_bytes ''RoleGranted(bytes32,address,address)'') \<mapsto>
        \<lparr>pe_kind = RoleGranted, pe_nargs = 3, pe_build = build_role_grant G\<rparr>]"

definition DecodePrivilegeChange ::
  "geth \<Rightarrow> address \<Rightarrow> hash list \<Rightarrow> byte list \<Rightarrow> PrivilegeChange option option" where
  "DecodePrivilegeChange G contract topics data =
     (if length topics = 0 then Some None
      else do {
        topic0 \<leftarrow> elem_at topics 0;
        case privilegeEvents G topic0 of
          None \<Rightarrow> Some None
        | Some ev \<Rightarrow> do {
            indexed \<leftarrow> subslice topics 1 (length topics);
            decoded_args \<leftarrow> eventArgs G indexed data;
            case decoded_args of
              None \<Rightarrow> Some None
            | Some args \<Rightarrow>
                if length args \<noteq> pe_nargs ev then Some None
                else do {
                  pc \<leftarrow> pe_build ev args;
                  Some (Some (pc\<lparr>PrivilegeChange_Kind := pe_kind ev,
                                 PrivilegeChange_Contract := contract\<rparr>))
                }
          }
      })"

subsection \<open>Flash loans (flashloan.go)\<close>

record FlashLoanEvent =
  FlashLoanEvent_Protocol :: string
  FlashLoanEvent_Lender :: address
  FlashLoanEvent_Token :: address
  FlashLoanEvent_Amount :: "int option"

definition aaveV3FlashLoanTopic :: "geth \<Rightarrow> hash" where
  "aaveV3FlashLoanTopic G =
     Keccak256Hash G (str_bytes ''FlashLoan(address,address,address,uint256,uint8,uint256,uint16)'')"

definition balancerV2FlashLoanTopic :: "geth \<Rightarrow> hash" where
  "balancerV2FlashLoanTopic G =
     Keccak256Hash G (str_bytes ''FlashLoan(address,address,uint256,uint256)'')"

definition uniswapV3FlashTopic :: "geth \<Rightarrow> hash" where
  "uniswapV3FlashTopic G =
     Keccak256Hash G (str_bytes ''Flash(address,address,uint256,uint256,uint256,uint256)'')"

definition DecodeFlashLoan ::
  "geth \<Rightarrow> address \<Rightarrow> hash list \<Rightarrow> byte list \<Rightarrow> FlashLoanEvent option option" where
  "DecodeFlashLoan G lender topics data =
     (if length topics = 0 then Some None
      else do {
        topic0 \<leftarrow> elem_at topics 0;
        if topic0 = aaveV3FlashLoanTopic G \<and> length topics = 4 \<and> length data = 4 * 32 then do {
          topic2 \<leftarrow> elem_at topics 2;
          amount \<leftarrow> subslice data 32 64;
          Some (Some \<lparr>FlashLoanEvent_Protocol = ''Aave V3'', FlashLoanEvent_Lender = lender,
            FlashLoanEvent_Token = addressArg G topic2, FlashLoanEvent_Amount = Some (be_int amount)\<rparr>)
        }
        else if topic0 = balancerV2FlashLoanTopic G \<and> length topics = 3 \<and> length data = 2 * 32
        then do {
          topic2 \<leftarrow> elem_at topics 2;
          amount \<leftarrow> subslice data 0 32;
          Some (Some \<lparr>FlashLoanEvent_Protocol = ''Balancer V2'', FlashLoanEvent_Lender = lender,
            FlashLoanEvent_Token = addressArg G topic2, FlashLoanEvent_Amount = Some (be_int amount)\<rparr>)
        }
        else if topic0 = uniswapV3FlashTopic G \<and> length topics = 3 \<and> length data = 4 * 32 then
          Some (Some \<lparr>FlashLoanEvent_Protocol = ''Uniswap V3'', FlashLoanEvent_Lender = lender,
            FlashLoanEvent_Token = 0, FlashLoanEvent_Amount = None\<rparr>)
        else Some None
      })"

subsection \<open>Layout of event arguments\<close>

text \<open>An address as a topic or a data word: left-padded to 32 bytes.\<close>

definition address_word :: "address \<Rightarrow> hash" where
  "address_word a = ucast a"

text \<open>A list of words as event data.\<close>

definition words_data :: "hash list \<Rightarrow> byte list" where
  "words_data ws = concat (map hash_bytes ws)"

lemma length_hash_bytes [simp]: "length (hash_bytes w) = 32"
  by (simp add: hash_bytes_def)

lemma be_int_hash_bytes [simp]: "be_int (hash_bytes w) = uint w"
proof -
  have "uint w < 256 ^ 32" using uint_lt2p [of w] by simp
  then show ?thesis by (simp add: hash_bytes_def be_int_be_bytes)
qed

lemma BytesToHash_hash_bytes: "bytes_ok G \<Longrightarrow> BytesToHash G (hash_bytes w) = w"
  by (simp add: bytes_okD)

lemma addressArg_eq:
  assumes "bytes_ok G"
  shows "addressArg G w = ucast w"
proof -
  have "addressArg G w = word_of_int (uint w mod 256 ^ 20)"
    using assms by (simp add: addressArg_def hash_bytes_def drop_be_bytes bytes_okD be_int_be_bytes)
  also have "\<dots> = ucast w"
    by (rule word_uint_eqI) (simp add: uint_word_of_int unsigned_ucast_eq take_bit_eq_mod)
  finally show ?thesis .
qed

lemma ucast_address_word: "ucast (address_word a) = a"
  unfolding address_word_def by transfer simp

lemma addressArg_word [simp]: "bytes_ok G \<Longrightarrow> addressArg G (address_word a) = a"
  by (simp add: addressArg_eq ucast_address_word)

lemma length_words_data [simp]: "length (words_data ws) = 32 * length ws"
  by (induction ws) (simp_all add: words_data_def)

text \<open>The 32-byte words of event data.\<close>

fun data_words :: "geth \<Rightarrow> byte list \<Rightarrow> hash list" where
  "data_words G data =
     (if data = [] then [] else BytesToHash G (take 32 data) # data_words G (drop 32 data))"

declare data_words.simps [simp del]

lemma data_words_words_data:
  assumes "bytes_ok G"
  shows "data_words G (words_data ws) = ws"
proof (induction ws)
  case Nil
  then show ?case by (simp add: words_data_def data_words.simps)
next
  case (Cons w ws)
  have "hash_bytes w \<noteq> []"
    using length_hash_bytes [of w] by (metis list.size(3) zero_neq_numeral)
  then show ?case
    using Cons assms
    by (simp add: words_data_def data_words.simps [of G "hash_bytes w @ _"] BytesToHash_hash_bytes)
qed

text \<open>Every slice of the loop is in range when the data is a whole number of words.\<close>

lemma args_loop_eq:
  assumes "length (drop i data) mod 32 = 0"
  shows "args_loop G data i args = Some (args @ data_words G (drop i data))"
  using assms
proof (induction G data i args rule: args_loop.induct)
  case (1 G data i args)
  show ?case
  proof (cases "i < length data")
    case True
    with 1(2) have le: "i + 32 \<le> length data" and m: "length (drop (i + 32) data) mod 32 = 0"
      unfolding length_drop by presburger+
    from le have "subslice data i (i + 32) = Some (take 32 (drop i data))" by simp
    with 1(1) [OF True this m] True show ?thesis
      by (simp add: args_loop.simps [of G data i] data_words.simps [of G "drop i data"] add.commute)
  next
    case False
    then show ?thesis by (simp add: args_loop.simps [of G data i] data_words.simps)
  qed
qed

lemma eventArgs_eq:
  "eventArgs G indexed data =
     Some (if length data mod 32 \<noteq> 0 then None else Some (indexed @ data_words G data))"
  by (simp add: eventArgs_def args_loop_eq)

lemma eventArgs_words_data:
  "bytes_ok G \<Longrightarrow> eventArgs G indexed (words_data ws) = Some (Some (indexed @ ws))"
  by (simp add: eventArgs_eq data_words_words_data)

lemmas topic_defs =
  transferTopic_def approvalTopic_def approvalForAllTopic_def aaveV3FlashLoanTopic_def
  balancerV2FlashLoanTopic_def uniswapV3FlashTopic_def

text \<open>Every ERC-20 transfer carries an amount.\<close>

definition amounts_ok :: "Transfer list \<Rightarrow> bool" where
  "amounts_ok ts \<longleftrightarrow> (\<forall>t \<in> set ts. Transfer_Standard t = ERC20 \<longrightarrow> Transfer_Amount t \<noteq> None)"

lemma DecodeTransfer_amount:
  "DecodeTransfer G token topics data = Some (Some t) \<Longrightarrow> Transfer_Standard t = ERC20 \<Longrightarrow>
   \<exists>n. Transfer_Amount t = Some n \<and> 0 \<le> n"
  by (auto simp: DecodeTransfer_def bind_eq_Some_conv split: if_splits)

subsection \<open>No decoder panics\<close>

lemmas build_defs = build_owner_change_def build_upgrade_def build_role_grant_def

text \<open>The builder of a privilege event reads only arguments that the event has.\<close>

lemma pe_build_defined:
  "privilegeEvents G t = Some ev \<Longrightarrow> length args = pe_nargs ev \<Longrightarrow> \<exists>pc. pe_build ev args = Some pc"
  by (auto simp: privilegeEvents_def build_defs split: if_splits)

lemma DecodePrivilegeChange_Cons:
  "DecodePrivilegeChange G c (t # ts) data =
     (case privilegeEvents G t of
        None \<Rightarrow> Some None
      | Some ev \<Rightarrow> do {
          decoded_args \<leftarrow> eventArgs G ts data;
          case decoded_args of
            None \<Rightarrow> Some None
          | Some args \<Rightarrow>
              if length args \<noteq> pe_nargs ev then Some None
              else do {
                pc \<leftarrow> pe_build ev args;
                Some (Some (pc\<lparr>PrivilegeChange_Kind := pe_kind ev, PrivilegeChange_Contract := c\<rparr>))
              }
        })"
  by (simp add: DecodePrivilegeChange_def split: option.split)

lemma DecodePrivilegeChange_defined: "\<exists>r. DecodePrivilegeChange G c topics data = Some r"
proof (cases topics)
  case Nil
  then show ?thesis by (simp add: DecodePrivilegeChange_def)
next
  case (Cons t ts)
  then show ?thesis
    using pe_build_defined [of G t _ "ts @ data_words G data"]
    by (cases "privilegeEvents G t") (auto simp: DecodePrivilegeChange_Cons eventArgs_eq bind_eq_Some_conv)
qed

text \<open>Whatever the topics and the data of a log, every index and slice of the decoders is in range.\<close>

lemma decoders_defined:
  "\<exists>r. DecodeTransfer G c topics data = Some r"
  "\<exists>r. DecodeApproval G c topics data = Some r"
  "\<exists>r. DecodeApprovalForAll G c topics data = Some r"
  "\<exists>r. DecodePrivilegeChange G c topics data = Some r"
  "\<exists>r. DecodeFlashLoan G c topics data = Some r"
  by (simp_all add: DecodeTransfer_def DecodeApproval_def DecodeApprovalForAll_def DecodeFlashLoan_def
      DecodePrivilegeChange_defined)

subsection \<open>Correctness of the decoders\<close>

text \<open>
  C32. Decoding is the inverse of the ABI layout of \<open>Transfer\<close>: a log with indexed sender and
  recipient and the amount in its data is read as the ERC-20 transfer of exactly that amount, and a
  log that also indexes the token ID, without data, as the ERC-721 transfer of exactly that token.
\<close>

theorem DecodeTransfer_roundtrip:
  assumes "bytes_ok G" and "0 \<le> x" and "x < 2 ^ 256"
  shows "DecodeTransfer G token [transferTopic G, address_word from, address_word to] (be_bytes 32 x) =
           Some (Some \<lparr>Transfer_Standard = ERC20, Transfer_Token = token, Transfer_From = from,
                 Transfer_To = to, Transfer_Amount = Some x, Transfer_TokenID = None\<rparr>)
       \<and> DecodeTransfer G token
           [transferTopic G, address_word from, address_word to, word_of_int x] [] =
           Some (Some \<lparr>Transfer_Standard = ERC721, Transfer_Token = token, Transfer_From = from,
                 Transfer_To = to, Transfer_Amount = None, Transfer_TokenID = Some x\<rparr>)"
  using assms
  by (simp add: DecodeTransfer_def be_int_be_bytes bytes_okD uint_word_of_int)

theorem DecodeTransfer_roundtrip_witness:
  "DecodeTransfer geth_model 9 [transferTopic geth_model, address_word 5, address_word 6]
     (be_bytes 32 1000) =
     Some (Some \<lparr>Transfer_Standard = ERC20, Transfer_Token = 9, Transfer_From = 5, Transfer_To = 6,
           Transfer_Amount = Some 1000, Transfer_TokenID = None\<rparr>)"
  using DecodeTransfer_roundtrip [OF geth_model_bytes_ok, of 1000 9 5 6] by simp

text \<open>The five decoders applied to one log, as whether each recognises it.\<close>

definition recognises :: "'a option option \<Rightarrow> bool" where
  "recognises r = (case r of Some (Some x) \<Rightarrow> True | _ \<Rightarrow> False)"

definition recognised :: "geth \<Rightarrow> address \<Rightarrow> hash list \<Rightarrow> byte list \<Rightarrow> bool list" where
  "recognised G c topics data =
     [recognises (DecodeTransfer G c topics data), recognises (DecodeApproval G c topics data),
      recognises (DecodeApprovalForAll G c topics data),
      recognises (DecodePrivilegeChange G c topics data), recognises (DecodeFlashLoan G c topics data)]"

lemma recognises_iff: "recognises r \<longleftrightarrow> (\<exists>x. r = Some (Some x))"
  by (auto simp: recognises_def split: option.splits)

lemma privilegeEvents_dom:
  "privilegeEvents G t \<noteq> None \<longleftrightarrow>
     t \<in> {Keccak256Hash G (str_bytes ''OwnershipTransferred(address,address)''),
          Keccak256Hash G (str_bytes ''Upgraded(address)''),
          Keccak256Hash G (str_bytes ''AdminChanged(address,address)''),
          Keccak256Hash G (str_bytes ''RoleGranted(bytes32,address,address)'')}"
  by (auto simp: privilegeEvents_def)

lemma recognised_topics:
  "recognises (DecodeTransfer G c topics data) \<Longrightarrow> topics ! 0 = transferTopic G"
  "recognises (DecodeApproval G c topics data) \<Longrightarrow> topics ! 0 = approvalTopic G"
  "recognises (DecodeApprovalForAll G c topics data) \<Longrightarrow> topics ! 0 = approvalForAllTopic G"
  "recognises (DecodePrivilegeChange G c topics data) \<Longrightarrow> privilegeEvents G (topics ! 0) \<noteq> None"
  "recognises (DecodeFlashLoan G c topics data) \<Longrightarrow>
     topics ! 0 \<in> {aaveV3FlashLoanTopic G, balancerV2FlashLoanTopic G, uniswapV3FlashTopic G}"
  by (auto simp: recognises_iff DecodeTransfer_def DecodeApproval_def DecodeApprovalForAll_def
      DecodePrivilegeChange_def DecodeFlashLoan_def bind_eq_Some_conv split: if_splits option.splits)

text \<open>The class of a topic: which decoder, if any, can recognise a log that starts with it.\<close>

definition topic_class :: "geth \<Rightarrow> hash \<Rightarrow> nat" where
  "topic_class G t =
     (if t = transferTopic G then 1 else if t = approvalTopic G then 2
      else if t = approvalForAllTopic G then 3 else if privilegeEvents G t \<noteq> None then 4 else 5)"

lemma topics_inj:
  "topics_ok G \<Longrightarrow> s \<in> set event_signatures \<Longrightarrow> s' \<in> set event_signatures \<Longrightarrow>
   Keccak256Hash G (str_bytes s) = Keccak256Hash G (str_bytes s') \<longleftrightarrow> s = s'"
  by (auto simp: topics_ok_def distinct_map dest: inj_onD)

lemma topic_classes:
  assumes "topics_ok G"
  shows "topic_class G (transferTopic G) = 1"
    and "topic_class G (approvalTopic G) = 2"
    and "topic_class G (approvalForAllTopic G) = 3"
    and "privilegeEvents G t \<noteq> None \<Longrightarrow> topic_class G t = 4"
    and "t \<in> {aaveV3FlashLoanTopic G, balancerV2FlashLoanTopic G, uniswapV3FlashTopic G} \<Longrightarrow>
           topic_class G t = 5"
proof -
  note inj = topics_inj [OF assms]
  show "topic_class G (transferTopic G) = 1"
    by (simp add: topic_class_def)
  show "topic_class G (approvalTopic G) = 2"
    by (simp add: topic_class_def topic_defs inj event_signatures_def)
  show "topic_class G (approvalForAllTopic G) = 3"
    by (simp add: topic_class_def topic_defs inj event_signatures_def)
  show "topic_class G t = 4" if "privilegeEvents G t \<noteq> None"
    using that unfolding topic_class_def privilegeEvents_dom
    by (auto simp: topic_defs inj event_signatures_def)
  show "topic_class G t = 5"
    if "t \<in> {aaveV3FlashLoanTopic G, balancerV2FlashLoanTopic G, uniswapV3FlashTopic G}"
    using that unfolding topic_class_def privilegeEvents_dom
    by (auto simp: topic_defs inj event_signatures_def)
qed

lemma at_most_one:
  assumes "\<not> (a \<and> b)" "\<not> (a \<and> c)" "\<not> (a \<and> d)" "\<not> (a \<and> e)" "\<not> (b \<and> c)" "\<not> (b \<and> d)"
    "\<not> (b \<and> e)" "\<not> (c \<and> d)" "\<not> (c \<and> e)" "\<not> (d \<and> e)"
  shows "length (filter id [a, b, c, d, e]) \<le> 1"
  using assms by (cases a; cases b; cases c; cases d; cases e) simp_all

text \<open>
  C33. No log is taken for two kinds of event: of the five decoders that \<open>collect\<close> runs on every
  log, at most one recognises it.
\<close>

theorem decoders_exclusive:
  assumes "topics_ok G"
  shows "length (filter id (recognised G c topics data)) \<le> 1"
  unfolding recognised_def
  by (rule at_most_one)
    (use topic_classes [OF assms] recognised_topics [of G c topics data] in fastforce)+

theorem decoders_exclusive_witness:
  "length (filter id (recognised geth_model 9 [approvalTopic geth_model, 1, 2] (be_bytes 32 7))) \<le> 1
   \<and> recognises (DecodeApproval geth_model 9 [approvalTopic geth_model, 1, 2] (be_bytes 32 7))"
  using decoders_exclusive [OF geth_model_topics_ok] by (simp add: DecodeApproval_def recognises_def)

lemma DecodePrivilegeChange_split:
  "bytes_ok G \<Longrightarrow>
   DecodePrivilegeChange G c (t # take k args) (words_data (drop k args)) =
   DecodePrivilegeChange G c (t # args) []"
  using eventArgs_words_data [of G "take k args" "drop k args"] eventArgs_words_data [of G args "[]"]
  by (simp add: DecodePrivilegeChange_Cons words_data_def split: option.split)

lemma DecodePrivilegeChange_indexed:
  "bytes_ok G \<Longrightarrow> privilegeEvents G t = Some ev \<Longrightarrow> length args = pe_nargs ev \<Longrightarrow>
   DecodePrivilegeChange G c (t # args) [] =
   do {
     pc \<leftarrow> pe_build ev args;
     Some (Some (pc\<lparr>PrivilegeChange_Kind := pe_kind ev, PrivilegeChange_Contract := c\<rparr>))
   }"
  using eventArgs_words_data [of G args "[]"]
  by (simp add: DecodePrivilegeChange_Cons words_data_def)

lemma privilegeEvents_simps:
  assumes "topics_ok G"
  shows "privilegeEvents G (Keccak256Hash G (str_bytes ''OwnershipTransferred(address,address)'')) =
      Some \<lparr>pe_kind = OwnershipTransferred, pe_nargs = 2, pe_build = build_owner_change G\<rparr>"
    and "privilegeEvents G (Keccak256Hash G (str_bytes ''Upgraded(address)'')) =
      Some \<lparr>pe_kind = Upgraded, pe_nargs = 1, pe_build = build_upgrade G\<rparr>"
    and "privilegeEvents G (Keccak256Hash G (str_bytes ''AdminChanged(address,address)'')) =
      Some \<lparr>pe_kind = AdminChanged, pe_nargs = 2, pe_build = build_owner_change G\<rparr>"
    and "privilegeEvents G (Keccak256Hash G (str_bytes ''RoleGranted(bytes32,address,address)'')) =
      Some \<lparr>pe_kind = RoleGranted, pe_nargs = 3, pe_build = build_role_grant G\<rparr>"
  using assms by (auto simp: privilegeEvents_def topics_ok_def event_signatures_def)

text \<open>The log of an event whose first \<open>k\<close> arguments are indexed and the others are in the data.\<close>

definition decode_split :: "geth \<Rightarrow> address \<Rightarrow> string \<Rightarrow> nat \<Rightarrow> hash list \<Rightarrow>
  PrivilegeChange option option" where
  "decode_split G c sig k args =
     DecodePrivilegeChange G c (Keccak256Hash G (str_bytes sig) # take k args)
       (words_data (drop k args))"

text \<open>
  C34. Every privilege event is decoded to the party that gains the privilege, however many of its
  arguments are indexed: the new owner, implementation or admin, or the grantee of the role.
\<close>

theorem privilege_decoding:
  assumes "bytes_ok G" and "topics_ok G"
  shows "decode_split G c ''OwnershipTransferred(address,address)'' k [address_word old, address_word new] =
           Some (Some \<lparr>PrivilegeChange_Kind = OwnershipTransferred, PrivilegeChange_Contract = c,
                 PrivilegeChange_Subject = new, PrivilegeChange_Previous = old,
                 PrivilegeChange_Role = 0\<rparr>)
       \<and> decode_split G c ''Upgraded(address)'' k [address_word new] =
           Some (Some \<lparr>PrivilegeChange_Kind = Upgraded, PrivilegeChange_Contract = c,
                 PrivilegeChange_Subject = new, PrivilegeChange_Previous = 0,
                 PrivilegeChange_Role = 0\<rparr>)
       \<and> decode_split G c ''AdminChanged(address,address)'' k [address_word old, address_word new] =
           Some (Some \<lparr>PrivilegeChange_Kind = AdminChanged, PrivilegeChange_Contract = c,
                 PrivilegeChange_Subject = new, PrivilegeChange_Previous = old,
                 PrivilegeChange_Role = 0\<rparr>)
       \<and> decode_split G c ''RoleGranted(bytes32,address,address)'' k
             [role, address_word new, address_word by_whom] =
           Some (Some \<lparr>PrivilegeChange_Kind = RoleGranted, PrivilegeChange_Contract = c,
                 PrivilegeChange_Subject = new, PrivilegeChange_Previous = 0,
                 PrivilegeChange_Role = role\<rparr>)"
  using assms privilegeEvents_simps [OF assms(2)]
  by (simp add: decode_split_def DecodePrivilegeChange_split DecodePrivilegeChange_indexed
      build_defs zero_change_def)

theorem privilege_decoding_witness:
  "decode_split geth_model 7 ''AdminChanged(address,address)'' 0 [address_word 3, address_word 4] =
     Some (Some \<lparr>PrivilegeChange_Kind = AdminChanged, PrivilegeChange_Contract = 7,
           PrivilegeChange_Subject = 4, PrivilegeChange_Previous = 3, PrivilegeChange_Role = 0\<rparr>)"
  using privilege_decoding [OF geth_model_bytes_ok geth_model_topics_ok, of 7 0 3 4] by blast

end
