(* ===== verification/Flows.thy ===== *)
theory Flows
  imports Frames Events
begin

text \<open>
  Asset flows (\<open>internal/analysis/flows.go\<close>): how much of each asset every address sent and
  received. The Go code keeps a slice of flows and a map from (asset, holder) to positions in it;
  the lemmas show that the result is the sum of the movements, that it conserves every asset, and
  that no pointer is nil.
\<close>

text \<open>\<open>common.Address{}\<close>, the asset of a flow of native ether.\<close>

definition ETH :: address where
  "ETH = 0"

record Flow =
  Flow_Asset :: address
  Flow_Holder :: address
  Flow_Out :: int
  Flow_In :: int

definition NetOut :: "Flow \<Rightarrow> int" where
  "NetOut f = Flow_Out f - Flow_In f"

type_synonym key = "address \<times> address"

text \<open>The variables \<open>index\<close> and \<open>flows\<close> that the closures \<open>flow\<close> and \<open>move\<close> share.\<close>

record flow_state =
  fs_index :: "key \<rightharpoonup> nat"
  fs_flows :: "Flow list"

definition flow :: "flow_state \<Rightarrow> address \<Rightarrow> address \<Rightarrow> (nat \<times> flow_state) option" where
  "flow st asset holder =
     (let (i, st') =
        (case fs_index st (asset, holder) of
           Some i \<Rightarrow> (i, st)
         | None \<Rightarrow>
             (length (fs_flows st),
              st\<lparr>fs_index := (fs_index st)((asset, holder) \<mapsto> length (fs_flows st)),
                 fs_flows := fs_flows st @
                   [\<lparr>Flow_Asset = asset, Flow_Holder = holder, Flow_Out = 0, Flow_In = 0\<rparr>]\<rparr>))
      in do {
        p \<leftarrow> elem_at (fs_flows st') i;
        Some (i, st')
      })"

text \<open>
  Additions through the pointer that \<open>flow\<close> returned: \<open>&flows[i]\<close> is checked there, and no other
  call comes between.
\<close>

definition add_out :: "nat \<Rightarrow> int \<Rightarrow> flow_state \<Rightarrow> flow_state" where
  "add_out i n st =
     (let f = fs_flows st ! i
      in st\<lparr>fs_flows := (fs_flows st)[i := f\<lparr>Flow_Out := Flow_Out f + n\<rparr>]\<rparr>)"

definition add_in :: "nat \<Rightarrow> int \<Rightarrow> flow_state \<Rightarrow> flow_state" where
  "add_in i n st =
     (let f = fs_flows st ! i
      in st\<lparr>fs_flows := (fs_flows st)[i := f\<lparr>Flow_In := Flow_In f + n\<rparr>]\<rparr>)"

text \<open>\<open>amount\<close> is a pointer; adding a nil amount panics (\<open>None\<close>).\<close>

definition move :: "flow_state \<Rightarrow> address \<Rightarrow> address \<Rightarrow> address \<Rightarrow> int option \<Rightarrow> flow_state option" where
  "move st asset from to amount =
     (if from = to then Some st
      else do {
        (i, st1) \<leftarrow> flow st asset from;
        n \<leftarrow> amount;
        (j, st2) \<leftarrow> flow (add_out i n st1) asset to;
        Some (add_in j n st2)
      })"

definition moves_ETH :: "Frame \<Rightarrow> bool" where
  "moves_ETH f \<longleftrightarrow> Frame_Type f \<in> {''CALL'', ''CREATE'', ''CREATE2'', ''SELFDESTRUCT''}"

fun frame_moves :: "flow_state \<Rightarrow> Frame list \<Rightarrow> flow_state option" where
  "frame_moves st [] = Some st"
| "frame_moves st (f # fs) =
     (if moves_ETH f \<and> Frame_Value f \<noteq> None
      then case move st ETH (Frame_From f) (Frame_To f) (Frame_Value f) of
             None \<Rightarrow> None
           | Some st' \<Rightarrow> frame_moves st' fs
      else frame_moves st fs)"

fun transfer_moves :: "flow_state \<Rightarrow> Transfer list \<Rightarrow> flow_state option" where
  "transfer_moves st [] = Some st"
| "transfer_moves st (t # ts) =
     (if Transfer_Standard t = ERC20
      then case move st (Transfer_Token t) (Transfer_From t) (Transfer_To t) (Transfer_Amount t) of
             None \<Rightarrow> None
           | Some st' \<Rightarrow> transfer_moves st' ts
      else transfer_moves st ts)"

definition computeFlows :: "Frame list \<Rightarrow> Transfer list \<Rightarrow> Flow list option" where
  "computeFlows frames transfers =
     (case frame_moves \<lparr>fs_index = Map.empty, fs_flows = []\<rparr> frames of
        None \<Rightarrow> None
      | Some st \<Rightarrow>
          (case transfer_moves st transfers of
             None \<Rightarrow> None
           | Some st' \<Rightarrow> Some (fs_flows st')))"

subsection \<open>Reference: sums of movements\<close>

record movement =
  mv_asset :: address
  mv_from :: address
  mv_to :: address
  mv_amount :: int

text \<open>The movements of a transaction: ETH attached to frames, then ERC-20 transfers.\<close>

definition frame_movements :: "Frame list \<Rightarrow> movement list" where
  "frame_movements fs =
     map (\<lambda>f. \<lparr>mv_asset = ETH, mv_from = Frame_From f, mv_to = Frame_To f,
               mv_amount = the (Frame_Value f)\<rparr>)
       (filter (\<lambda>f. (Frame_Type f = ''CALL'' \<or> Frame_Type f = ''CREATE'' \<or> Frame_Type f = ''CREATE2'' \<or>
                    Frame_Type f = ''SELFDESTRUCT'') \<and> Frame_Value f \<noteq> None) fs)"

definition transfer_movements :: "Transfer list \<Rightarrow> movement list" where
  "transfer_movements ts =
     map (\<lambda>t. \<lparr>mv_asset = Transfer_Token t, mv_from = Transfer_From t, mv_to = Transfer_To t,
               mv_amount = the (Transfer_Amount t)\<rparr>)
       (filter (\<lambda>t. Transfer_Standard t = ERC20) ts)"

definition movements :: "Frame list \<Rightarrow> Transfer list \<Rightarrow> movement list" where
  "movements fs ts =
     filter (\<lambda>m. mv_from m \<noteq> mv_to m) (frame_movements fs @ transfer_movements ts)"

definition sent :: "movement list \<Rightarrow> key \<Rightarrow> int" where
  "sent ms k = sum_list (map mv_amount (filter (\<lambda>m. (mv_asset m, mv_from m) = k) ms))"

definition received :: "movement list \<Rightarrow> key \<Rightarrow> int" where
  "received ms k = sum_list (map mv_amount (filter (\<lambda>m. (mv_asset m, mv_to m) = k) ms))"

text \<open>The holders touched by a list of movements, in order: sender before recipient.\<close>

definition touched :: "movement list \<Rightarrow> key list" where
  "touched ms = concat (map (\<lambda>m. [(mv_asset m, mv_from m), (mv_asset m, mv_to m)]) ms)"

definition flow_key :: "Flow \<Rightarrow> key" where
  "flow_key f = (Flow_Asset f, Flow_Holder f)"

subsection \<open>The invariant of the closures\<close>

definition index_ok :: "flow_state \<Rightarrow> bool" where
  "index_ok st \<longleftrightarrow>
     (\<forall>k i. fs_index st k = Some i \<longleftrightarrow> i < length (fs_flows st) \<and> flow_key (fs_flows st ! i) = k)"

text \<open>What the state says of a key, zero for one it has not seen.\<close>

definition out_of :: "flow_state \<Rightarrow> key \<Rightarrow> int" where
  "out_of st k = (case fs_index st k of Some i \<Rightarrow> Flow_Out (fs_flows st ! i) | None \<Rightarrow> 0)"

definition in_of :: "flow_state \<Rightarrow> key \<Rightarrow> int" where
  "in_of st k = (case fs_index st k of Some i \<Rightarrow> Flow_In (fs_flows st ! i) | None \<Rightarrow> 0)"

definition keys_of :: "flow_state \<Rightarrow> key list" where
  "keys_of st = map flow_key (fs_flows st)"

text \<open>Appending a key unless it is already there.\<close>

definition add_key :: "key list \<Rightarrow> key \<Rightarrow> key list" where
  "add_key ks k = (if k \<in> set ks then ks else ks @ [k])"

lemma flow_key_update [simp]:
  "flow_key (f\<lparr>Flow_Out := x\<rparr>) = flow_key f" "flow_key (f\<lparr>Flow_In := x\<rparr>) = flow_key f"
  by (simp_all add: flow_key_def)

lemma index_ok_iff:
  "index_ok st \<Longrightarrow>
   fs_index st k = Some i \<longleftrightarrow> i < length (fs_flows st) \<and> flow_key (fs_flows st ! i) = k"
  unfolding index_ok_def by blast

lemma index_ok_bound: "index_ok st \<Longrightarrow> fs_index st k = Some i \<Longrightarrow> i < length (fs_flows st)"
  by (simp add: index_ok_iff)

lemma index_ok_None:
  assumes "index_ok st"
  shows "fs_index st k = None \<longleftrightarrow> k \<notin> set (keys_of st)"
proof -
  have "(\<exists>i. fs_index st k = Some i) \<longleftrightarrow> k \<in> set (keys_of st)"
    unfolding keys_of_def in_set_conv_nth index_ok_iff [OF assms] by (metis length_map nth_map)
  then show ?thesis by (cases "fs_index st k") auto
qed

lemma index_ok_distinct: "index_ok st \<Longrightarrow> distinct (keys_of st)"
  unfolding distinct_conv_nth keys_of_def index_ok_def
  by (metis length_map nth_map option.inject)

lemma flow_defined: "index_ok st \<Longrightarrow> \<exists>i st'. flow st a h = Some (i, st')"
  by (auto simp: flow_def dest: index_ok_bound split: option.split)

lemma flow_spec:
  assumes "index_ok st" and "flow st a h = Some (i, st')"
  shows "index_ok st'" and "fs_index st' (a, h) = Some i"
    and "out_of st' = out_of st" and "in_of st' = in_of st"
    and "keys_of st' = add_key (keys_of st) (a, h)"
proof -
  show "fs_index st' (a, h) = Some i"
    using assms(2) by (auto simp: flow_def bind_eq_Some_conv split: option.splits)
  show "index_ok st'"
  proof (cases "fs_index st (a, h)")
    case None
    then have "fs_index st k = Some j \<Longrightarrow> k \<noteq> (a, h)" for k j by auto
    with None assms show ?thesis
      by (auto simp: flow_def bind_eq_Some_conv index_ok_def flow_key_def nth_append less_Suc_eq split: if_splits)
  next
    case (Some j)
    with assms show ?thesis by (auto simp: flow_def bind_eq_Some_conv)
  qed
  show "out_of st' = out_of st" "in_of st' = in_of st"
    using assms(2) index_ok_bound [OF assms(1)]
    by (auto simp: flow_def bind_eq_Some_conv out_of_def in_of_def nth_append fun_eq_iff
        split: option.splits if_splits dest: index_ok_bound [OF assms(1)])
  show "keys_of st' = add_key (keys_of st) (a, h)"
    using assms index_ok_None [OF assms(1), of "(a, h)"]
    by (auto simp: flow_def bind_eq_Some_conv add_key_def keys_of_def flow_key_def split: option.splits)
qed

lemma add_spec:
  assumes "index_ok st" and "fs_index st k = Some i"
  shows "index_ok (add_out i n st)" and "index_ok (add_in i n st)"
    and "out_of (add_out i n st) = (out_of st)(k := out_of st k + n)"
    and "in_of (add_out i n st) = in_of st"
    and "in_of (add_in i n st) = (in_of st)(k := in_of st k + n)"
    and "out_of (add_in i n st) = out_of st"
    and "keys_of (add_out i n st) = keys_of st" and "keys_of (add_in i n st) = keys_of st"
proof -
  have i: "i < length (fs_flows st)" "flow_key (fs_flows st ! i) = k"
    using assms by (simp_all add: index_ok_iff)
  have other: "fs_index st k' = Some j \<Longrightarrow> k' \<noteq> k \<Longrightarrow> j \<noteq> i" for k' j
    using assms by (auto simp: index_ok_iff)
  have keys: "flow_key ((fs_flows st)[i := f] ! j) = flow_key (fs_flows st ! j)"
    if "flow_key f = flow_key (fs_flows st ! i)" for f j
    using that i(1) by (cases "j = i") auto
  show "index_ok (add_out i n st)" "index_ok (add_in i n st)"
    using assms(1) by (simp_all add: add_out_def add_in_def index_ok_def Let_def keys)
  show "out_of (add_out i n st) = (out_of st)(k := out_of st k + n)"
    "in_of (add_in i n st) = (in_of st)(k := in_of st k + n)"
    "in_of (add_out i n st) = in_of st" "out_of (add_in i n st) = out_of st"
    using assms(2) i(1) other
    by (auto simp: add_out_def add_in_def out_of_def in_of_def Let_def fun_eq_iff nth_list_update
        split: option.splits)
  show "keys_of (add_out i n st) = keys_of st" "keys_of (add_in i n st) = keys_of st"
    by (simp_all add: add_out_def add_in_def keys_of_def Let_def map_update list_update_same_conv i)
qed


lemma move_spec:
  assumes "index_ok st" and "from \<noteq> to"
  obtains st' where "move st a from to (Some n) = Some st'" and "index_ok st'"
    and "out_of st' = (out_of st)((a, from) := out_of st (a, from) + n)"
    and "in_of st' = (in_of st)((a, to) := in_of st (a, to) + n)"
    and "keys_of st' = add_key (add_key (keys_of st) (a, from)) (a, to)"
proof -
  obtain i st1 where f1: "flow st a from = Some (i, st1)" using flow_defined [OF assms(1)] by blast
  note s1 = flow_spec [OF assms(1) f1]
  note a1 = add_spec [OF s1(1,2)]
  obtain j st2 where f2: "flow (add_out i n st1) a to = Some (j, st2)"
    using flow_defined [OF a1(1)] by blast
  note s2 = flow_spec [OF a1(1) f2]
  note a2 = add_spec [OF s2(1,2)]
  show ?thesis
  proof (rule that)
    show "move st a from to (Some n) = Some (add_in j n st2)"
      using assms(2) by (simp add: move_def f1 f2)
    show "index_ok (add_in j n st2)" by (rule a2)
  qed (simp_all add: a2 s2 a1 s1)
qed


subsection \<open>Correctness of computeFlows\<close>

text \<open>Keys in order of first appearance.\<close>

definition firsts :: "key list \<Rightarrow> key list" where
  "firsts ks = foldl add_key [] ks"

text \<open>The state after the movements \<open>ms\<close>.\<close>

definition tracks :: "flow_state \<Rightarrow> movement list \<Rightarrow> bool" where
  "tracks st ms \<longleftrightarrow>
     index_ok st \<and> out_of st = sent ms \<and> in_of st = received ms \<and> keys_of st = firsts (touched ms)"

lemma set_firsts: "set (firsts ks) = set ks"
proof -
  have "set (foldl add_key acc ks) = set acc \<union> set ks" for acc
    by (induction ks arbitrary: acc) (auto simp: add_key_def)
  then show ?thesis by (simp add: firsts_def)
qed

lemma tracks_empty: "tracks \<lparr>fs_index = Map.empty, fs_flows = []\<rparr> []"
  by (simp add: tracks_def index_ok_def out_of_def in_of_def keys_of_def sent_def received_def
      touched_def firsts_def fun_eq_iff)

lemma sent_snoc: "sent (ms @ [m]) = (sent ms)((mv_asset m, mv_from m) :=
    sent ms (mv_asset m, mv_from m) + mv_amount m)"
  by (rule ext) (simp add: sent_def)

lemma received_snoc: "received (ms @ [m]) = (received ms)((mv_asset m, mv_to m) :=
    received ms (mv_asset m, mv_to m) + mv_amount m)"
  by (rule ext) (simp add: received_def)

lemma firsts_touched_snoc: "firsts (touched (ms @ [m])) =
    add_key (add_key (firsts (touched ms)) (mv_asset m, mv_from m)) (mv_asset m, mv_to m)"
  by (simp add: firsts_def touched_def)

lemma tracks_snoc:
  assumes "tracks st ms" and "mv_from m \<noteq> mv_to m"
  obtains st' where "move st (mv_asset m) (mv_from m) (mv_to m) (Some (mv_amount m)) = Some st'"
    and "tracks st' (ms @ [m])"
proof -
  have "index_ok st" using assms(1) by (simp add: tracks_def)
  from move_spec [OF this assms(2), of "mv_asset m" "mv_amount m"] obtain st' where
    "move st (mv_asset m) (mv_from m) (mv_to m) (Some (mv_amount m)) = Some st'" "index_ok st'"
    "out_of st' = (out_of st)((mv_asset m, mv_from m) := out_of st (mv_asset m, mv_from m) + mv_amount m)"
    "in_of st' = (in_of st)((mv_asset m, mv_to m) := in_of st (mv_asset m, mv_to m) + mv_amount m)"
    "keys_of st' = add_key (add_key (keys_of st) (mv_asset m, mv_from m)) (mv_asset m, mv_to m)"
    by metis
  with assms(1) show ?thesis
    by (intro that) (simp_all add: tracks_def sent_snoc received_snoc firsts_touched_snoc)
qed

abbreviation moving :: "movement list \<Rightarrow> movement list" where
  "moving ms \<equiv> filter (\<lambda>m. mv_from m \<noteq> mv_to m) ms"

text \<open>One movement, whether or not it moves anything between two different holders.\<close>

lemma tracks_move:
  assumes "tracks st ms"
  obtains st' where "move st (mv_asset m) (mv_from m) (mv_to m) (Some (mv_amount m)) = Some st'"
    and "tracks st' (ms @ moving [m])"
  using assms tracks_snoc [OF assms, of m]
  by (cases "mv_from m = mv_to m") (auto simp: move_def)

lemma frame_movements_Cons:
  "frame_movements (f # fs) =
     (if moves_ETH f \<and> Frame_Value f \<noteq> None
      then \<lparr>mv_asset = ETH, mv_from = Frame_From f, mv_to = Frame_To f, mv_amount = the (Frame_Value f)\<rparr> #
           frame_movements fs
      else frame_movements fs)"
  by (simp add: frame_movements_def moves_ETH_def)

lemma frame_moves_tracks:
  "tracks st ms \<Longrightarrow> \<exists>st'. frame_moves st fs = Some st' \<and> tracks st' (ms @ moving (frame_movements fs))"
proof (induction fs arbitrary: st ms)
  case Nil
  then show ?case by (simp add: frame_movements_def)
next
  case (Cons f fs)
  show ?case
  proof (cases "moves_ETH f \<and> Frame_Value f \<noteq> None")
    case True
    then obtain n where n: "Frame_Value f = Some n" "moves_ETH f" by auto
    from tracks_move [OF Cons.prems, of "\<lparr>mv_asset = ETH, mv_from = Frame_From f,
        mv_to = Frame_To f, mv_amount = n\<rparr>"]
    obtain st' where st': "move st ETH (Frame_From f) (Frame_To f) (Some n) = Some st'"
      "tracks st' (ms @ moving [\<lparr>mv_asset = ETH, mv_from = Frame_From f,
        mv_to = Frame_To f, mv_amount = n\<rparr>])" by auto
    from Cons.IH [OF st'(2)] n st'(1) show ?thesis
      by (auto simp: frame_movements_Cons split: if_splits)
  next
    case False
    with Cons.IH [OF Cons.prems] show ?thesis by (auto simp: frame_movements_Cons)
  qed
qed

lemma transfer_moves_tracks:
  "tracks st ms \<Longrightarrow> amounts_ok ts \<Longrightarrow>
   \<exists>st'. transfer_moves st ts = Some st' \<and> tracks st' (ms @ moving (transfer_movements ts))"
proof (induction ts arbitrary: st ms)
  case Nil
  then show ?case by (simp add: transfer_movements_def)
next
  case (Cons t ts)
  from Cons.prems(2) have ok: "amounts_ok ts" by (simp add: amounts_ok_def)
  show ?case
  proof (cases "Transfer_Standard t = ERC20")
    case True
    with Cons.prems(2) obtain n where n: "Transfer_Amount t = Some n" by (auto simp: amounts_ok_def)
    let ?m = "\<lparr>mv_asset = Transfer_Token t, mv_from = Transfer_From t,
        mv_to = Transfer_To t, mv_amount = n\<rparr>"
    from tracks_move [OF Cons.prems(1), of ?m] obtain st' where
      st': "move st (Transfer_Token t) (Transfer_From t) (Transfer_To t) (Some n) = Some st'"
      "tracks st' (ms @ moving [?m])" by auto
    from Cons.IH [OF st'(2) ok] n True st'(1) show ?thesis
      by (auto simp: transfer_movements_def split: if_splits)
  next
    case False
    with Cons.IH [OF Cons.prems(1) ok] show ?thesis by (auto simp: transfer_movements_def)
  qed
qed

lemma computeFlows_tracks:
  assumes "amounts_ok ts"
  obtains st where "computeFlows fs ts = Some (fs_flows st)" and "tracks st (movements fs ts)"
proof -
  from frame_moves_tracks [OF tracks_empty, of fs] obtain st1 where
    st1: "frame_moves \<lparr>fs_index = Map.empty, fs_flows = []\<rparr> fs = Some st1"
      "tracks st1 (moving (frame_movements fs))" by auto
  from transfer_moves_tracks [OF st1(2) assms] obtain st2 where
    st2: "transfer_moves st1 ts = Some st2" "tracks st2 (movements fs ts)"
    by (auto simp: movements_def)
  show ?thesis by (rule that [OF _ st2(2)]) (simp add: computeFlows_def st1 st2(1))
qed

lemma tracks_flow:
  assumes "tracks st ms" and "f \<in> set (fs_flows st)"
  shows "Flow_Out f = sent ms (flow_key f)" and "Flow_In f = received ms (flow_key f)"
proof -
  from assms(2) obtain i where i: "i < length (fs_flows st)" "fs_flows st ! i = f"
    by (auto simp: in_set_conv_nth)
  with assms(1) have "fs_index st (flow_key f) = Some i"
    by (simp add: tracks_def index_ok_iff)
  with i have "out_of st (flow_key f) = Flow_Out f" "in_of st (flow_key f) = Flow_In f"
    by (simp_all add: out_of_def in_of_def)
  with assms(1) show "Flow_Out f = sent ms (flow_key f)" "Flow_In f = received ms (flow_key f)"
    by (simp_all add: tracks_def)
qed

text \<open>
  C13. \<open>computeFlows\<close> never dereferences a nil amount and computes exactly the sums of the ETH and
  ERC-20 movements: one flow per touched asset and holder, in order of first appearance, with what
  the holder sent and received.
\<close>

theorem computeFlows_correct:
  assumes "amounts_ok ts"
  shows "\<exists>flows. computeFlows fs ts = Some flows \<and>
           map flow_key flows = firsts (touched (movements fs ts)) \<and> distinct (map flow_key flows) \<and>
           (\<forall>f \<in> set flows. Flow_Out f = sent (movements fs ts) (flow_key f) \<and>
                            Flow_In f = received (movements fs ts) (flow_key f))"
proof -
  from computeFlows_tracks [OF assms, of fs] obtain st where
    st: "computeFlows fs ts = Some (fs_flows st)" "tracks st (movements fs ts)" .
  moreover from st(2) have "distinct (map flow_key (fs_flows st))"
    using index_ok_distinct [of st] by (simp add: tracks_def keys_of_def)
  ultimately show ?thesis
    using tracks_flow [OF st(2)] by (auto simp: tracks_def keys_of_def)
qed


definition example_frames :: "Frame list" where
  "example_frames =
     [\<lparr>Frame_Type = ''CALL'', Frame_From = 1, Frame_To = 2, Frame_Value = Some 5, Frame_Depth = 0\<rparr>,
      \<lparr>Frame_Type = ''DELEGATECALL'', Frame_From = 2, Frame_To = 3, Frame_Value = Some 5,
       Frame_Depth = 1\<rparr>]"

definition example_transfers :: "Transfer list" where
  "example_transfers =
     [\<lparr>Transfer_Standard = ERC20, Transfer_Token = 9, Transfer_From = 2, Transfer_To = 1,
       Transfer_Amount = Some 70, Transfer_TokenID = None\<rparr>,
      \<lparr>Transfer_Standard = ERC721, Transfer_Token = 8, Transfer_From = 2, Transfer_To = 1,
       Transfer_Amount = None, Transfer_TokenID = Some 4\<rparr>]"

theorem computeFlows_correct_witness:
  "amounts_ok example_transfers \<and>
   (\<exists>flows. computeFlows example_frames example_transfers = Some flows \<and>
      map flow_key flows = [(0, 1), (0, 2), (9, 2), (9, 1)])"
proof -
  have ok: "amounts_ok example_transfers"
    by (simp add: amounts_ok_def example_transfers_def)
  have "firsts (touched (movements example_frames example_transfers)) =
      [(0, 1), (0, 2), (9, 2), (9, 1)]"
    by (simp add: movements_def frame_movements_def transfer_movements_def example_frames_def
        example_transfers_def moves_ETH_def touched_def firsts_def add_key_def ETH_def)
  with ok computeFlows_correct [OF ok, of example_frames] show ?thesis by auto
qed

text \<open>Summing per key and then over the keys with a property is summing over the elements.\<close>

lemma sum_by_key:
  fixes w :: "'a \<Rightarrow> int"
  assumes "finite K"
  shows "\<forall>m \<in> set ms. kf m \<in> K \<Longrightarrow>
         (\<Sum>k \<in> {k \<in> K. P k}. sum_list (map w (filter (\<lambda>m. kf m = k) ms))) =
         sum_list (map w (filter (\<lambda>m. P (kf m)) ms))"
proof (induction ms)
  case Nil
  then show ?case by simp
next
  case (Cons m ms)
  have fin: "finite {k \<in> K. P k}" using assms by simp
  have "(\<Sum>k \<in> {k \<in> K. P k}. sum_list (map w (filter (\<lambda>m. kf m = k) (m # ms)))) =
      (\<Sum>k \<in> {k \<in> K. P k}. (if kf m = k then w m else 0) + sum_list (map w (filter (\<lambda>m. kf m = k) ms)))"
    by (rule sum.cong) auto
  also have "\<dots> = (if P (kf m) then w m else 0) + sum_list (map w (filter (\<lambda>m. P (kf m)) ms))"
    using Cons fin by (simp add: sum.distrib sum.delta)
  finally show ?case by simp
qed

lemma sum_sent_received:
  assumes "finite K" and "set (touched ms) \<subseteq> K"
  shows "(\<Sum>k \<in> {k \<in> K. fst k = a}. sent ms k - received ms k) = 0"
proof -
  have K: "\<forall>m \<in> set ms. (mv_asset m, mv_from m) \<in> K" "\<forall>m \<in> set ms. (mv_asset m, mv_to m) \<in> K"
    using assms(2) by (auto simp: touched_def)
  show ?thesis
    unfolding sum_subtractf sent_def received_def
    using sum_by_key [OF assms(1) K(1), where P = "\<lambda>k. fst k = a" and w = mv_amount]
      sum_by_key [OF assms(1) K(2), where P = "\<lambda>k. fst k = a" and w = mv_amount]
    by simp
qed

text \<open>
  C28. Conservation: within one asset the net outflows of all holders cancel. What one holder loses
  another gains, so a net outflow is never an artefact of the bookkeeping.
\<close>

theorem flows_conserve:
  assumes "amounts_ok ts" and "computeFlows fs ts = Some flows"
  shows "sum_list (map NetOut (filter (\<lambda>f. Flow_Asset f = a) flows)) = 0"
proof -
  let ?ms = "movements fs ts"
  from computeFlows_tracks [OF assms(1), of fs] assms(2) obtain st where
    st: "flows = fs_flows st" "tracks st ?ms" by auto
  have keys: "map flow_key flows = firsts (touched ?ms)" and ok: "index_ok st"
    using st by (simp_all add: tracks_def keys_of_def)
  have dist: "distinct (map flow_key flows)"
    using index_ok_distinct [OF ok] st(1) by (simp add: keys_of_def)
  let ?net = "\<lambda>k. sent ?ms k - received ?ms k"
  have net: "NetOut f = ?net (flow_key f)" if "f \<in> set flows" for f
    using that tracks_flow [OF st(2)] st(1) by (simp add: NetOut_def)
  let ?sel = "filter (\<lambda>f. Flow_Asset f = a) flows"
  have "sum_list (map NetOut ?sel) = sum_list (map ?net (map flow_key ?sel))"
    unfolding map_map by (intro arg_cong [where f = sum_list] map_cong) (auto simp: net)
  also have "\<dots> = sum ?net (set (map flow_key ?sel))"
    by (rule sum_list_distinct_conv_sum_set) (rule distinct_map_filter [OF dist])
  also have "set (map flow_key ?sel) = {k \<in> set (map flow_key flows). fst k = a}"
    by (auto simp: flow_key_def)
  also have "sum ?net \<dots> = 0"
    by (rule sum_sent_received) (simp_all add: keys set_firsts)
  finally show ?thesis .
qed

theorem flows_conserve_witness:
  "\<exists>flows. computeFlows example_frames example_transfers = Some flows \<and>
     sum_list (map NetOut (filter (\<lambda>f. Flow_Asset f = 9) flows)) = 0"
proof -
  have ok: "amounts_ok example_transfers"
    by (simp add: amounts_ok_def example_transfers_def)
  from computeFlows_tracks [OF ok, of example_frames] obtain st where
    st: "computeFlows example_frames example_transfers = Some (fs_flows st)"
      "tracks st (movements example_frames example_transfers)" .
  from st(1) flows_conserve [OF ok st(1), of 9] show ?thesis by (intro exI conjI)
qed

end
