(* ===== verification/FlashLoans.thy ===== *)
theory FlashLoans
  imports Events
begin

text \<open>
  Flash loans borrowed and repaid within the transaction (\<open>internal/analysis/flashloan.go\<close>): the
  generic borrow-and-repay pattern in ERC-20 transfers, and merging it with the loans that lending
  protocols announce.
\<close>

definition RepaidPattern :: string where
  "RepaidPattern = ''borrow-and-repay pattern''"

record FlashLoan =
  FlashLoan_Lender :: address
  FlashLoan_Token :: address
  FlashLoan_Amount :: "int option"
  FlashLoan_Source :: string

text \<open>The condition of the inner loop: \<open>back\<close> returns \<open>out\<close>'s token to \<open>out\<close>'s sender.\<close>

definition pays_back :: "Transfer \<Rightarrow> Transfer \<Rightarrow> bool" where
  "pays_back out b \<longleftrightarrow>
     Transfer_Standard b = ERC20 \<and> Transfer_Token b = Transfer_Token out \<and>
     Transfer_To b = Transfer_From out \<and> Transfer_From b \<noteq> Transfer_From out"

text \<open>The inner loop; adding a nil amount panics (\<open>None\<close>).\<close>

fun repaid_loop :: "Transfer \<Rightarrow> Transfer list \<Rightarrow> int \<Rightarrow> int option" where
  "repaid_loop out [] repaid = Some repaid"
| "repaid_loop out (b # bs) repaid =
     (if pays_back out b
      then case Transfer_Amount b of
             None \<Rightarrow> None
           | Some n \<Rightarrow> repaid_loop out bs (repaid + n)
      else repaid_loop out bs repaid)"

text \<open>
  The outer loop. The amount is only read (\<open>Sign\<close>, which panics on nil) once the cheaper
  conditions have not skipped the transfer.
\<close>

fun loans_loop ::
  "(address \<times> address \<Rightarrow> bool) \<Rightarrow> FlashLoan list \<Rightarrow> Transfer list \<Rightarrow> FlashLoan list option" where
  "loans_loop seen loans [] = Some loans"
| "loans_loop seen loans (out # rest) =
     (if Transfer_Standard out \<noteq> ERC20 \<or> Transfer_From out = 0 \<or> Transfer_From out = Transfer_To out
      then loans_loop seen loans rest
      else case Transfer_Amount out of
        None \<Rightarrow> None
      | Some n \<Rightarrow>
          if n = 0 then loans_loop seen loans rest
          else if seen (Transfer_From out, Transfer_Token out) then loans_loop seen loans rest
          else case repaid_loop out rest 0 of
            None \<Rightarrow> None
          | Some repaid \<Rightarrow>
              if repaid \<ge> n
              then loans_loop (seen((Transfer_From out, Transfer_Token out) := True))
                     (loans @ [\<lparr>FlashLoan_Lender = Transfer_From out,
                                FlashLoan_Token = Transfer_Token out,
                                FlashLoan_Amount = Some n,
                                FlashLoan_Source = RepaidPattern\<rparr>]) rest
              else loans_loop seen loans rest)"

definition findRepaidLoans :: "Transfer list \<Rightarrow> FlashLoan list option" where
  "findRepaidLoans transfers = loans_loop (\<lambda>_. False) [] transfers"

fun named_lenders :: "FlashLoan list \<Rightarrow> (address \<Rightarrow> bool) \<Rightarrow> (address \<Rightarrow> bool)" where
  "named_lenders [] named = named"
| "named_lenders (l # ls) named = named_lenders ls (named(FlashLoan_Lender l := True))"

fun merge_loop :: "(address \<Rightarrow> bool) \<Rightarrow> FlashLoan list \<Rightarrow> FlashLoan list \<Rightarrow> FlashLoan list" where
  "merge_loop named loans [] = loans"
| "merge_loop named loans (l # ls) =
     (if \<not> named (FlashLoan_Lender l) then merge_loop named (loans @ [l]) ls
      else merge_loop named loans ls)"

definition mergeFlashLoans :: "FlashLoan list \<Rightarrow> FlashLoan list \<Rightarrow> FlashLoan list" where
  "mergeFlashLoans announced repaid =
     merge_loop (named_lenders announced (\<lambda>_. False)) announced repaid"

subsection \<open>Reference: borrowed and repaid\<close>

text \<open>What comes back to the sender of \<open>out\<close> in later transfers, from others, in the same token.\<close>

definition repaid_to :: "Transfer \<Rightarrow> Transfer list \<Rightarrow> int" where
  "repaid_to out rest =
     sum_list (map (\<lambda>b. the (Transfer_Amount b))
       (filter (\<lambda>b. Transfer_Standard b = ERC20 \<and> Transfer_Token b = Transfer_Token out \<and>
          Transfer_To b = Transfer_From out \<and> Transfer_From b \<noteq> Transfer_From out) rest))"

text \<open>A transfer that opens a loan, given the transfers after it.\<close>

definition opens_loan :: "Transfer \<Rightarrow> Transfer list \<Rightarrow> bool" where
  "opens_loan out rest \<longleftrightarrow>
     Transfer_Standard out = ERC20 \<and> Transfer_From out \<noteq> 0 \<and> Transfer_From out \<noteq> Transfer_To out \<and>
     the (Transfer_Amount out) \<noteq> 0 \<and> the (Transfer_Amount out) \<le> repaid_to out rest"

definition loan_key :: "FlashLoan \<Rightarrow> address \<times> address" where
  "loan_key l = (FlashLoan_Lender l, FlashLoan_Token l)"

lemma repaid_loop_eq:
  "amounts_ok bs \<Longrightarrow> repaid_loop out bs r = Some (r + repaid_to out bs)"
  by (induction bs arbitrary: r) (auto simp: amounts_ok_def repaid_to_def pays_back_def)

text \<open>The loans the rest of the loop adds to those it already has.\<close>

fun pattern_loans :: "(address \<times> address \<Rightarrow> bool) \<Rightarrow> Transfer list \<Rightarrow> FlashLoan list" where
  "pattern_loans seen [] = []"
| "pattern_loans seen (out # rest) =
     (if opens_loan out rest \<and> \<not> seen (Transfer_From out, Transfer_Token out)
      then \<lparr>FlashLoan_Lender = Transfer_From out, FlashLoan_Token = Transfer_Token out,
            FlashLoan_Amount = Some (the (Transfer_Amount out)),
            FlashLoan_Source = RepaidPattern\<rparr> #
           pattern_loans (seen((Transfer_From out, Transfer_Token out) := True)) rest
      else pattern_loans seen rest)"

lemma loans_loop_eq:
  "amounts_ok ts \<Longrightarrow> loans_loop seen loans ts = Some (loans @ pattern_loans seen ts)"
proof (induction ts arbitrary: seen loans)
  case Nil
  then show ?case by simp
next
  case (Cons out rest)
  then have ok: "amounts_ok rest" by (simp add: amounts_ok_def)
  show ?case
  proof (cases "Transfer_Standard out = ERC20")
    case True
    with Cons.prems obtain n where "Transfer_Amount out = Some n" by (auto simp: amounts_ok_def)
    with True ok show ?thesis by (auto simp: Cons.IH repaid_loop_eq opens_loan_def fun_upd_def)
  next
    case False
    with ok show ?thesis by (simp add: Cons.IH opens_loan_def)
  qed
qed

text \<open>Some transfer opens a loan from lender \<open>fst k\<close> in token \<open>snd k\<close>.\<close>

fun borrowed :: "address \<times> address \<Rightarrow> Transfer list \<Rightarrow> bool" where
  "borrowed k [] = False"
| "borrowed k (out # rest) =
     (opens_loan out rest \<and> k = (Transfer_From out, Transfer_Token out) \<or> borrowed k rest)"

lemma borrowed_iff:
  "borrowed k ts \<longleftrightarrow>
     (\<exists>pre out rest. ts = pre @ out # rest \<and> opens_loan out rest \<and>
        k = (Transfer_From out, Transfer_Token out))"
  by (induction ts) (auto simp: Cons_eq_append_conv)

lemma pattern_loans_keys:
  "loan_key ` set (pattern_loans seen ts) = {k. borrowed k ts \<and> \<not> seen k}"
proof (induction ts arbitrary: seen)
  case Nil
  then show ?case by simp
next
  case (Cons out rest)
  then show ?case by (auto simp: loan_key_def)
qed

lemma pattern_loans_distinct: "distinct (map loan_key (pattern_loans seen ts))"
proof (induction ts arbitrary: seen)
  case Nil
  then show ?case by simp
next
  case (Cons out rest)
  let ?k = "(Transfer_From out, Transfer_Token out)"
  have "?k \<notin> loan_key ` set (pattern_loans (seen(?k := True)) rest)"
    unfolding pattern_loans_keys by simp
  with Cons show ?case by (simp add: loan_key_def)
qed

lemma pattern_loans_source:
  "l \<in> set (pattern_loans seen ts) \<Longrightarrow>
   FlashLoan_Source l = RepaidPattern \<and> FlashLoan_Amount l \<noteq> None \<and> FlashLoan_Lender l \<noteq> 0"
  by (induction ts arbitrary: seen) (auto simp: opens_loan_def split: if_splits)

text \<open>
  C27. The borrow-and-repay detector never dereferences a nil amount and reports each lender and
  token exactly once when, for some transfer out of the lender, later transfers from others bring
  back at least as much of the token; it reports nothing else.
\<close>

theorem findRepaidLoans_correct:
  assumes "amounts_ok ts"
  shows "\<exists>loans. findRepaidLoans ts = Some loans \<and> distinct (map loan_key loans) \<and>
           loan_key ` set loans =
             {k. \<exists>pre out rest. ts = pre @ out # rest \<and> opens_loan out rest \<and>
                   k = (Transfer_From out, Transfer_Token out)}"
  using assms pattern_loans_distinct [of "\<lambda>_. False" ts] pattern_loans_keys [of "\<lambda>_. False" ts]
  by (simp add: findRepaidLoans_def loans_loop_eq borrowed_iff)

definition erc20 :: "address \<Rightarrow> address \<Rightarrow> address \<Rightarrow> int \<Rightarrow> Transfer" where
  "erc20 token from to n =
     \<lparr>Transfer_Standard = ERC20, Transfer_Token = token, Transfer_From = from, Transfer_To = to,
      Transfer_Amount = Some n, Transfer_TokenID = None\<rparr>"

theorem findRepaidLoans_correct_witness:
  "\<exists>loans. findRepaidLoans [erc20 9 5 6 100, erc20 9 6 5 101] = Some loans \<and>
     loan_key ` set loans = {(5, 9)}"
proof -
  let ?ts = "[erc20 9 5 6 100, erc20 9 6 5 101]"
  have "amounts_ok ?ts" by (simp add: amounts_ok_def erc20_def)
  from findRepaidLoans_correct [OF this] obtain loans where
    l: "findRepaidLoans ?ts = Some loans" "loan_key ` set loans = {k. borrowed k ?ts}"
    unfolding borrowed_iff by blast
  have "{k. borrowed k ?ts} = {(5, 9)}"
    by (auto simp: opens_loan_def repaid_to_def pays_back_def erc20_def)
  with l show ?thesis by blast
qed

subsection \<open>Merging\<close>

lemma named_lenders_eq: "named_lenders ls named x \<longleftrightarrow> named x \<or> x \<in> FlashLoan_Lender ` set ls"
  by (induction ls arbitrary: named) auto

lemma merge_loop_eq: "merge_loop named loans ls = loans @ filter (\<lambda>l. \<not> named (FlashLoan_Lender l)) ls"
  by (induction ls arbitrary: loans) auto

lemma mergeFlashLoans_eq:
  "mergeFlashLoans announced repaid =
     announced @ filter (\<lambda>l. FlashLoan_Lender l \<notin> FlashLoan_Lender ` set announced) repaid"
  by (simp add: mergeFlashLoans_def merge_loop_eq named_lenders_eq)

lemma mergeFlashLoans_lenders:
  "FlashLoan_Lender ` set (mergeFlashLoans announced repaid) =
     FlashLoan_Lender ` set announced \<union> FlashLoan_Lender ` set repaid"
  by (auto simp: mergeFlashLoans_eq)

end
