(* ===== verification/Analysis.thy ===== *)
theory Analysis
  imports Flows FlashLoans
begin

text \<open>
  Package \<open>internal/analysis\<close> (\<open>analysis.go\<close>): the rule-ready view of one transaction. \<open>collect\<close>
  walks the call tree and appends to the analysis; the lemmas show that the walk visits exactly the
  live frames in execution order, and what every field of the result holds.
\<close>

record Analysis =
  Analysis_Tx :: Decoded
  Analysis_Addresses :: "address list"
  Analysis_Reverted :: bool
  Analysis_Frames :: "Frame list"
  Analysis_Created :: "address list"
  Analysis_Logs :: "Log list"
  Analysis_Transfers :: "Transfer list"
  Analysis_Approvals :: "Approval list"
  Analysis_ApprovalsForAll :: "ApprovalForAll list"
  Analysis_Privileged :: "PrivilegeChange list"
  Analysis_Flows :: "Flow list"
  Analysis_FlashLoans :: "FlashLoan list"

definition FromTx :: "Decoded \<Rightarrow> Analysis" where
  "FromTx tx =
     \<lparr>Analysis_Tx = tx,
      Analysis_Addresses =
        (case Tx_To (Decoded_Tx tx) of
           None \<Rightarrow> [Decoded_From tx]
         | Some to \<Rightarrow> if to \<noteq> Decoded_From tx then [Decoded_From tx] @ [to] else [Decoded_From tx]),
      Analysis_Reverted = False, Analysis_Frames = [], Analysis_Created = [], Analysis_Logs = [],
      Analysis_Transfers = [], Analysis_Approvals = [], Analysis_ApprovalsForAll = [],
      Analysis_Privileged = [], Analysis_Flows = [], Analysis_FlashLoans = []\<rparr>"

definition addAddress :: "address \<Rightarrow> Analysis \<Rightarrow> Analysis" where
  "addAddress addr a =
     (if addr \<notin> set (Analysis_Addresses a)
      then a\<lparr>Analysis_Addresses := Analysis_Addresses a @ [addr]\<rparr> else a)"

definition CreatedInTx :: "Analysis \<Rightarrow> address \<Rightarrow> bool" where
  "CreatedInTx a addr \<longleftrightarrow> addr \<in> set (Analysis_Created a)"

text \<open>
  The body of the loop of \<open>collect\<close> over the logs of a frame; a panic inside a decoder is \<open>None\<close>.
\<close>

definition log_transfer :: "geth \<Rightarrow> Log \<Rightarrow> Analysis \<Rightarrow> Analysis option" where
  "log_transfer G l a =
     do {
       r \<leftarrow> DecodeTransfer G (Log_Address l) (Log_Topics l) (Log_Data l);
       Some (case r of
          None \<Rightarrow> a
        | Some tr \<Rightarrow>
            addAddress (Transfer_To tr) (a\<lparr>Analysis_Transfers := Analysis_Transfers a @ [tr]\<rparr>))
     }"

definition log_approval :: "geth \<Rightarrow> Log \<Rightarrow> Analysis \<Rightarrow> Analysis option" where
  "log_approval G l a =
     do {
       r \<leftarrow> DecodeApproval G (Log_Address l) (Log_Topics l) (Log_Data l);
       Some (case r of
          None \<Rightarrow> a
        | Some ap \<Rightarrow> a\<lparr>Analysis_Approvals := Analysis_Approvals a @ [ap]\<rparr>)
     }"

definition log_approval_for_all :: "geth \<Rightarrow> Log \<Rightarrow> Analysis \<Rightarrow> Analysis option" where
  "log_approval_for_all G l a =
     do {
       r \<leftarrow> DecodeApprovalForAll G (Log_Address l) (Log_Topics l) (Log_Data l);
       Some (case r of
          None \<Rightarrow> a
        | Some ap \<Rightarrow> a\<lparr>Analysis_ApprovalsForAll := Analysis_ApprovalsForAll a @ [ap]\<rparr>)
     }"

definition log_privilege :: "geth \<Rightarrow> Log \<Rightarrow> Analysis \<Rightarrow> Analysis option" where
  "log_privilege G l a =
     do {
       r \<leftarrow> DecodePrivilegeChange G (Log_Address l) (Log_Topics l) (Log_Data l);
       Some (case r of
          None \<Rightarrow> a
        | Some pc \<Rightarrow> a\<lparr>Analysis_Privileged := Analysis_Privileged a @ [pc]\<rparr>)
     }"

definition loan_of_event :: "FlashLoanEvent \<Rightarrow> FlashLoan" where
  "loan_of_event fl =
     \<lparr>FlashLoan_Lender = FlashLoanEvent_Lender fl, FlashLoan_Token = FlashLoanEvent_Token fl,
      FlashLoan_Amount = FlashLoanEvent_Amount fl, FlashLoan_Source = FlashLoanEvent_Protocol fl\<rparr>"

definition log_flash_loan :: "geth \<Rightarrow> Log \<Rightarrow> Analysis \<Rightarrow> Analysis option" where
  "log_flash_loan G l a =
     do {
       r \<leftarrow> DecodeFlashLoan G (Log_Address l) (Log_Topics l) (Log_Data l);
       Some (case r of
          None \<Rightarrow> a
        | Some fl \<Rightarrow> a\<lparr>Analysis_FlashLoans := Analysis_FlashLoans a @ [loan_of_event fl]\<rparr>)
     }"

definition collect_log :: "geth \<Rightarrow> Log \<Rightarrow> Analysis \<Rightarrow> Analysis option" where
  "collect_log G l a =
     do {
       a1 \<leftarrow> log_transfer G l (a\<lparr>Analysis_Logs := Analysis_Logs a @ [l]\<rparr>);
       a2 \<leftarrow> log_approval G l a1;
       a3 \<leftarrow> log_approval_for_all G l a2;
       a4 \<leftarrow> log_privilege G l a3;
       log_flash_loan G l a4
     }"

primrec collect_logs :: "geth \<Rightarrow> Log list \<Rightarrow> Analysis \<Rightarrow> Analysis option" where
  "collect_logs G [] a = Some a"
| "collect_logs G (l # ls) a = do { a' \<leftarrow> collect_log G l a; collect_logs G ls a' }"

text \<open>The flat frame of a call: only a positive value is kept, and a nil \<open>To\<close> stays zero.\<close>

definition frame_of :: "nat \<Rightarrow> CallFrame \<Rightarrow> Frame" where
  "frame_of depth f =
     \<lparr>Frame_Type = Call_Type f, Frame_From = Call_From f,
      Frame_To = (case Call_To f of Some t \<Rightarrow> t | None \<Rightarrow> 0),
      Frame_Value = (case Call_Value f of Some v \<Rightarrow> if v > 0 then Some v else None | None \<Rightarrow> None),
      Frame_Depth = depth\<rparr>"

text \<open>What \<open>collect\<close> does with the frame itself, before it descends into the sub-calls.\<close>

definition collect_frame :: "geth \<Rightarrow> nat \<Rightarrow> CallFrame \<Rightarrow> Analysis \<Rightarrow> Analysis option" where
  "collect_frame G depth f a =
     (let frame = frame_of depth f;
          a1 = (case Call_To f of
                  None \<Rightarrow> a
                | Some to \<Rightarrow>
                    (let a0 = addAddress to a
                     in if IsCreate frame
                        then a0\<lparr>Analysis_Created := Analysis_Created a0 @ [to]\<rparr> else a0));
          a2 = a1\<lparr>Analysis_Frames := Analysis_Frames a1 @ [frame]\<rparr>
      in collect_logs G (Call_Logs f) a2)"

primrec collect :: "geth \<Rightarrow> CallFrame \<Rightarrow> nat \<Rightarrow> Analysis \<Rightarrow> Analysis option"
  and collect_calls :: "geth \<Rightarrow> CallFrame list \<Rightarrow> nat \<Rightarrow> Analysis \<Rightarrow> Analysis option" where
  "collect G (CallFrame ty sender to val gas used inp outp er logs calls) depth a =
     (if er \<noteq> '''' then Some a
      else do {
        a' \<leftarrow> collect_frame G depth (CallFrame ty sender to val gas used inp outp er logs calls) a;
        collect_calls G calls (depth + 1) a'
      })"
| "collect_calls G [] depth a = Some a"
| "collect_calls G (c # cs) depth a =
     do { a' \<leftarrow> collect G c depth a; collect_calls G cs depth a' }"

text \<open>A panic inside \<open>collect\<close>, \<open>computeFlows\<close> or \<open>findRepaidLoans\<close> would be \<open>None\<close>.\<close>

definition Build :: "geth \<Rightarrow> Decoded \<Rightarrow> CallFrame option \<Rightarrow> Analysis option" where
  "Build G tx trace =
     (case trace of
        None \<Rightarrow> Some (FromTx tx)
      | Some f \<Rightarrow> do {
          a \<leftarrow> collect G f 0 ((FromTx tx)\<lparr>Analysis_Reverted := Call_Error f \<noteq> ''''\<rparr>);
          flows \<leftarrow> computeFlows (Analysis_Frames a) (Analysis_Transfers a);
          repaid \<leftarrow> findRepaidLoans (Analysis_Transfers a);
          Some (a\<lparr>Analysis_Flows := flows,
                  Analysis_FlashLoans := mergeFlashLoans (Analysis_FlashLoans a) repaid\<rparr>)
        })"

subsection \<open>The walk visits the live frames in execution order\<close>

text \<open>What each decoder finds in a list of logs, in order.\<close>

definition decoded ::
  "(address \<Rightarrow> hash list \<Rightarrow> byte list \<Rightarrow> 'a option option) \<Rightarrow> Log list \<Rightarrow> 'a list" where
  "decoded dec ls =
     List.map_filter (\<lambda>l. do { r \<leftarrow> dec (Log_Address l) (Log_Topics l) (Log_Data l); r }) ls"

lemma decoded_simps [simp]:
  "decoded dec [] = []"
  "decoded dec (l # ls) =
     (case dec (Log_Address l) (Log_Topics l) (Log_Data l) of
        Some (Some x) \<Rightarrow> x # decoded dec ls | _ \<Rightarrow> decoded dec ls)"
  by (simp_all add: decoded_def map_filter_simps split: option.split)

lemma decoded_append: "decoded dec (ls @ ms) = decoded dec ls @ decoded dec ms"
  by (induction ls) (simp_all split: option.split)

lemma decoded_Cons: "decoded dec (l # ls) = decoded dec [l] @ decoded dec ls"
  using decoded_append [of dec "[l]" ls] by simp

lemma decoded_mem:
  "x \<in> set (decoded dec ls) \<longleftrightarrow>
     (\<exists>l \<in> set ls. dec (Log_Address l) (Log_Topics l) (Log_Data l) = Some (Some x))"
  by (induction ls) (auto split: option.splits)

text \<open>The addresses a frame touches, in the order \<open>collect\<close> meets them.\<close>

definition frame_addresses :: "geth \<Rightarrow> CallFrame \<Rightarrow> address list" where
  "frame_addresses G f =
     (case Call_To f of Some t \<Rightarrow> [t] | None \<Rightarrow> []) @
     map Transfer_To (decoded (DecodeTransfer G) (Call_Logs f))"

definition add_new :: "address list \<Rightarrow> address list \<Rightarrow> address list" where
  "add_new acc xs = foldl (\<lambda>ys x. if x \<in> set ys then ys else ys @ [x]) acc xs"

lemma set_add_new: "set (add_new acc xs) = set acc \<union> set xs"
  unfolding add_new_def by (induction xs arbitrary: acc) auto

lemma distinct_add_new: "distinct acc \<Longrightarrow> distinct (add_new acc xs)"
  unfolding add_new_def by (induction xs arbitrary: acc) auto

lemma add_new_append: "add_new acc (xs @ ys) = add_new (add_new acc xs) ys"
  by (simp add: add_new_def)

lemma add_new_simps: "add_new acc [] = acc" "add_new acc (x # xs) =
    add_new (if x \<in> set acc then acc else acc @ [x]) xs"
  by (simp_all add: add_new_def)

lemmas log_defs =
  log_transfer_def log_approval_def log_approval_for_all_def log_privilege_def log_flash_loan_def
  addAddress_def

text \<open>The effect of logs, field by field; no decoder panics on them.\<close>

definition with_logs :: "geth \<Rightarrow> Log list \<Rightarrow> Analysis \<Rightarrow> Analysis" where
  "with_logs G ls a =
     a\<lparr>Analysis_Addresses :=
         add_new (Analysis_Addresses a) (map Transfer_To (decoded (DecodeTransfer G) ls)),
       Analysis_Logs := Analysis_Logs a @ ls,
       Analysis_Transfers := Analysis_Transfers a @ decoded (DecodeTransfer G) ls,
       Analysis_Approvals := Analysis_Approvals a @ decoded (DecodeApproval G) ls,
       Analysis_ApprovalsForAll := Analysis_ApprovalsForAll a @ decoded (DecodeApprovalForAll G) ls,
       Analysis_Privileged := Analysis_Privileged a @ decoded (DecodePrivilegeChange G) ls,
       Analysis_FlashLoans :=
         Analysis_FlashLoans a @ map loan_of_event (decoded (DecodeFlashLoan G) ls)\<rparr>"

lemma collect_log_spec: "collect_log G l a = Some (with_logs G [l] a)"
proof -
  note def = decoders_defined [of G "Log_Address l" "Log_Topics l" "Log_Data l"]
  obtain r1 r2 r3 r4 r5 where
    "DecodeTransfer G (Log_Address l) (Log_Topics l) (Log_Data l) = Some r1"
    "DecodeApproval G (Log_Address l) (Log_Topics l) (Log_Data l) = Some r2"
    "DecodeApprovalForAll G (Log_Address l) (Log_Topics l) (Log_Data l) = Some r3"
    "DecodePrivilegeChange G (Log_Address l) (Log_Topics l) (Log_Data l) = Some r4"
    "DecodeFlashLoan G (Log_Address l) (Log_Topics l) (Log_Data l) = Some r5"
    using def by blast
  then show ?thesis
    by (simp add: collect_log_def log_defs with_logs_def add_new_simps split: option.split)
qed

lemma collect_logs_spec: "collect_logs G ls a = Some (with_logs G ls a)"
proof (induction ls arbitrary: a)
  case Nil
  then show ?case by (simp add: with_logs_def add_new_simps)
next
  case (Cons l ls)
  then show ?case
    by (simp add: collect_log_spec with_logs_def add_new_append decoded_Cons [of _ l ls]
        del: decoded_simps)
qed

text \<open>The contract a frame deploys.\<close>

definition created_by :: "CallFrame \<Rightarrow> address list" where
  "created_by f =
     (case Call_To f of
        Some t \<Rightarrow> if Call_Type f = ''CREATE'' \<or> Call_Type f = ''CREATE2'' then [t] else []
      | None \<Rightarrow> [])"

text \<open>The logs, addresses and frames of a list of live frames.\<close>

definition logs_of :: "(nat \<times> CallFrame) list \<Rightarrow> Log list" where
  "logs_of es = concat (map (\<lambda>e. Call_Logs (snd e)) es)"

definition addresses_of :: "geth \<Rightarrow> (nat \<times> CallFrame) list \<Rightarrow> address list" where
  "addresses_of G es = concat (map (\<lambda>e. frame_addresses G (snd e)) es)"

definition created_of :: "(nat \<times> CallFrame) list \<Rightarrow> address list" where
  "created_of es = concat (map (\<lambda>e. created_by (snd e)) es)"

definition frames_of :: "(nat \<times> CallFrame) list \<Rightarrow> Frame list" where
  "frames_of es = map (\<lambda>e. frame_of (fst e) (snd e)) es"

definition extended :: "geth \<Rightarrow> (nat \<times> CallFrame) list \<Rightarrow> Analysis \<Rightarrow> Analysis" where
  "extended G es a =
     a\<lparr>Analysis_Addresses := add_new (Analysis_Addresses a) (addresses_of G es),
       Analysis_Frames := Analysis_Frames a @ frames_of es,
       Analysis_Created := Analysis_Created a @ created_of es,
       Analysis_Logs := Analysis_Logs a @ logs_of es,
       Analysis_Transfers := Analysis_Transfers a @ decoded (DecodeTransfer G) (logs_of es),
       Analysis_Approvals := Analysis_Approvals a @ decoded (DecodeApproval G) (logs_of es),
       Analysis_ApprovalsForAll :=
         Analysis_ApprovalsForAll a @ decoded (DecodeApprovalForAll G) (logs_of es),
       Analysis_Privileged := Analysis_Privileged a @ decoded (DecodePrivilegeChange G) (logs_of es),
       Analysis_FlashLoans :=
         Analysis_FlashLoans a @ map loan_of_event (decoded (DecodeFlashLoan G) (logs_of es))\<rparr>"

lemmas of_defs = logs_of_def addresses_of_def created_of_def frames_of_def

lemma collect_frame_spec: "collect_frame G d f a = Some (extended G [(d, f)] a)"
  by (simp add: collect_frame_def collect_logs_spec with_logs_def extended_def of_defs
      frame_addresses_def created_by_def Let_def frame_of_def IsCreate_def addAddress_def
      add_new_simps add_new_append split: option.split)

lemma extended_append: "extended G fs (extended G es a) = extended G (es @ fs) a"
  by (simp add: extended_def of_defs add_new_append decoded_append)

lemma extended_Nil: "extended G [] a = a"
  by (simp add: extended_def of_defs add_new_simps)

lemma collect_spec: "collect G f d a = Some (extended G (live d f) a)"
  and collect_calls_spec: "collect_calls G cs d a = Some (extended G (live_calls d cs) a)"
  by (induction f and cs arbitrary: d a and d a rule: live.induct live_calls.induct)
    (simp_all add: collect_frame_spec extended_append extended_Nil)

lemma decoded_amounts_ok: "amounts_ok (decoded (DecodeTransfer G) ls)"
  by (fastforce simp: amounts_ok_def decoded_mem dest: DecodeTransfer_amount)

text \<open>The transfers and announced loans of a trace.\<close>

definition trace_transfers :: "geth \<Rightarrow> CallFrame \<Rightarrow> Transfer list" where
  "trace_transfers G f = decoded (DecodeTransfer G) (logs_of (live 0 f))"

definition announced_loans :: "geth \<Rightarrow> CallFrame \<Rightarrow> FlashLoan list" where
  "announced_loans G f = map loan_of_event (decoded (DecodeFlashLoan G) (logs_of (live 0 f)))"

lemma trace_amounts_ok: "amounts_ok (trace_transfers G f)"
  by (simp add: trace_transfers_def decoded_amounts_ok)

lemma FromTx_fields [simp]:
  "Analysis_Tx (FromTx tx) = tx" "Analysis_Frames (FromTx tx) = []" "Analysis_Created (FromTx tx) = []"
  "Analysis_Logs (FromTx tx) = []" "Analysis_Transfers (FromTx tx) = []"
  "Analysis_Approvals (FromTx tx) = []" "Analysis_ApprovalsForAll (FromTx tx) = []"
  "Analysis_Privileged (FromTx tx) = []" "Analysis_FlashLoans (FromTx tx) = []"
  by (simp_all add: FromTx_def)

text \<open>The flows of a trace; \<open>computeFlows\<close> is defined on them (\<open>trace_flows_eq\<close>).\<close>

definition trace_flows :: "geth \<Rightarrow> CallFrame \<Rightarrow> Flow list" where
  "trace_flows G f = the (computeFlows (frames_of (live 0 f)) (trace_transfers G f))"

definition trace_loans :: "geth \<Rightarrow> CallFrame \<Rightarrow> FlashLoan list" where
  "trace_loans G f =
     mergeFlashLoans (announced_loans G f) (pattern_loans (\<lambda>_. False) (trace_transfers G f))"

lemma trace_flows_eq:
  "computeFlows (frames_of (live 0 f)) (trace_transfers G f) = Some (trace_flows G f)"
  using computeFlows_tracks [OF trace_amounts_ok [of G f], of "frames_of (live 0 f)"]
  by (metis option.sel trace_flows_def)

lemma trace_repaid_eq:
  "findRepaidLoans (trace_transfers G f) = Some (pattern_loans (\<lambda>_. False) (trace_transfers G f))"
  by (simp add: findRepaidLoans_def loans_loop_eq trace_amounts_ok)

lemma Build_eq:
  "Build G tx (Some f) =
     Some ((extended G (live 0 f) ((FromTx tx)\<lparr>Analysis_Reverted := Call_Error f \<noteq> ''''\<rparr>))
       \<lparr>Analysis_Flows := trace_flows G f, Analysis_FlashLoans := trace_loans G f\<rparr>)"
  using trace_flows_eq [of f G] trace_repaid_eq [of G f]
  by (simp add: Build_def collect_spec Let_def extended_def trace_transfers_def announced_loans_def
      trace_loans_def)

lemma Build_defined: "\<exists>a. Build G tx trace = Some a"
  by (cases trace) (simp_all add: Build_eq, simp add: Build_def)

text \<open>
  C35. Building the analysis never panics, whatever the trace: every index and slice expression of
  the event decoders and of the flow computation is in range, for any number of topics and any data
  of a log, and no flow or loan computation dereferences a nil amount.
\<close>

theorem Build_total: "\<exists>a. Build G tx trace = Some a"
  by (rule Build_defined)

lemma Build_fields:
  assumes "Build G tx (Some f) = Some a"
  shows "Analysis_Tx a = tx"
    and "Analysis_Reverted a \<longleftrightarrow> Call_Error f \<noteq> ''''"
    and "Analysis_Addresses a =
           add_new (Analysis_Addresses (FromTx tx)) (addresses_of G (live 0 f))"
    and "Analysis_Frames a = frames_of (live 0 f)"
    and "Analysis_Created a = created_of (live 0 f)"
    and "Analysis_Logs a = logs_of (live 0 f)"
    and "Analysis_Transfers a = trace_transfers G f"
    and "Analysis_Approvals a = decoded (DecodeApproval G) (logs_of (live 0 f))"
    and "Analysis_ApprovalsForAll a = decoded (DecodeApprovalForAll G) (logs_of (live 0 f))"
    and "Analysis_Privileged a = decoded (DecodePrivilegeChange G) (logs_of (live 0 f))"
    and "Analysis_Flows a = trace_flows G f"
    and "Analysis_FlashLoans a = trace_loans G f"
proof -
  from assms have "a = (extended G (live 0 f) ((FromTx tx)\<lparr>Analysis_Reverted := Call_Error f \<noteq> ''''\<rparr>))
       \<lparr>Analysis_Flows := trace_flows G f, Analysis_FlashLoans := trace_loans G f\<rparr>"
    by (simp add: Build_eq)
  then show "Analysis_Tx a = tx"
    and "Analysis_Reverted a \<longleftrightarrow> Call_Error f \<noteq> ''''"
    and "Analysis_Addresses a =
           add_new (Analysis_Addresses (FromTx tx)) (addresses_of G (live 0 f))"
    and "Analysis_Frames a = frames_of (live 0 f)"
    and "Analysis_Created a = created_of (live 0 f)"
    and "Analysis_Logs a = logs_of (live 0 f)"
    and "Analysis_Transfers a = trace_transfers G f"
    and "Analysis_Approvals a = decoded (DecodeApproval G) (logs_of (live 0 f))"
    and "Analysis_ApprovalsForAll a = decoded (DecodeApprovalForAll G) (logs_of (live 0 f))"
    and "Analysis_Privileged a = decoded (DecodePrivilegeChange G) (logs_of (live 0 f))"
    and "Analysis_Flows a = trace_flows G f"
    and "Analysis_FlashLoans a = trace_loans G f"
    by (simp_all add: extended_def trace_transfers_def)
qed

subsection \<open>Which frames count\<close>

text \<open>
  A frame's effects stay when it did not revert and neither did a frame above it: the inductive
  reading of the comment on \<open>Analysis\<close>.
\<close>

inductive alive :: "CallFrame \<Rightarrow> nat \<Rightarrow> CallFrame \<Rightarrow> bool" for trace where
  alive_root: "Call_Error trace = '''' \<Longrightarrow> alive trace 0 trace"
| alive_call: "alive trace d c \<Longrightarrow> c' \<in> set (Call_Calls c) \<Longrightarrow> Call_Error c' = '''' \<Longrightarrow>
     alive trace (Suc d) c'"

inductive_cases alive_zeroE: "alive trace 0 c"

lemma live_alive:
  "(Call_Error c = '''' \<Longrightarrow> alive f d c) \<Longrightarrow> (k, c') \<in> set (live d c) \<Longrightarrow> alive f k c'"
  and live_calls_alive:
  "(\<And>x. x \<in> set cs \<Longrightarrow> Call_Error x = '''' \<Longrightarrow> alive f d x) \<Longrightarrow> (k, c') \<in> set (live_calls d cs) \<Longrightarrow>
   alive f k c'"
proof (induction c and cs arbitrary: d and d rule: live.induct live_calls.induct)
  case (CallFrame ty sender to val gas used inp outp er logs calls)
  let ?c = "CallFrame ty sender to val gas used inp outp er logs calls"
  from CallFrame.prems(2) have er: "er = ''''" by (simp split: if_splits)
  with CallFrame.prems(1) have al: "alive f d ?c" by simp
  from CallFrame.prems(2) er consider "(k, c') = (d, ?c)" | "(k, c') \<in> set (live_calls (Suc d) calls)"
    by auto
  then show ?case
  proof cases
    case 1
    with al show ?thesis by simp
  next
    case 2
    show ?thesis
      by (rule CallFrame.IH [OF _ 2]) (use alive_call [OF al] in simp)
  qed
qed auto

lemma live_call:
  assumes "(d, c) \<in> set (live 0 f)" and "c' \<in> set (Call_Calls c)" and "Call_Error c' = ''''"
  shows "(Suc d, c') \<in> set (live 0 f)"
proof -
  from assms(1) obtain xs zs where split: "live 0 f = xs @ (d, c) # zs"
    by (auto simp: in_set_conv_decomp)
  from live_split [OF split] have "set (live_calls (Suc d) (Call_Calls c)) \<subseteq> set zs"
    by (auto simp: split_at_frame_def)
  moreover have "(Suc d, c') \<in> set (live (Suc d) c')"
    by (simp add: live_cases [of "Suc d" c'] assms(3))
  then have "(Suc d, c') \<in> set (live_calls (Suc d) (Call_Calls c))"
    using assms(2) unfolding live_calls_concat by auto
  ultimately show ?thesis by (auto simp: split)
qed

lemma live_iff_alive: "(d, c) \<in> set (live 0 f) \<longleftrightarrow> alive f d c"
proof
  assume "(d, c) \<in> set (live 0 f)"
  then show "alive f d c" by (rule live_alive [rotated]) (rule alive_root)
next
  assume "alive f d c"
  then show "(d, c) \<in> set (live 0 f)"
  proof (induction rule: alive.induct)
    case alive_root
    then show ?case by (simp add: live_cases)
  next
    case (alive_call d c c')
    then show ?case by (blast intro: live_call)
  qed
qed

lemma alive_live: "(\<exists>e \<in> set (live 0 f). P (snd e)) \<longleftrightarrow> (\<exists>d c. alive f d c \<and> P c)"
  unfolding live_iff_alive [symmetric] by (metis prod.collapse snd_conv)

lemma frame_addresses_mem:
  "t \<in> set (frame_addresses G c) \<longleftrightarrow>
     Call_To c = Some t \<or>
     (\<exists>l \<in> set (Call_Logs c). \<exists>tr. DecodeTransfer G (Log_Address l) (Log_Topics l) (Log_Data l) = Some (Some tr) \<and>
        t = Transfer_To tr)"
proof -
  have "t \<in> Transfer_To ` set (decoded (DecodeTransfer G) (Call_Logs c)) \<longleftrightarrow>
      (\<exists>l \<in> set (Call_Logs c). \<exists>tr. DecodeTransfer G (Log_Address l) (Log_Topics l) (Log_Data l) = Some (Some tr) \<and>
        t = Transfer_To tr)"
    unfolding image_iff Bex_def decoded_mem by blast
  then show ?thesis by (cases "Call_To c") (auto simp: frame_addresses_def)
qed

lemma Build_address_set:
  assumes "Build G tx (Some f) = Some a"
  shows "distinct (Analysis_Addresses a) \<and>
         set (Analysis_Addresses a) =
           {Decoded_From tx} \<union> {t. Tx_To (Decoded_Tx tx) = Some t}
           \<union> {t. \<exists>d c. alive f d c \<and> Call_To c = Some t}
           \<union> {Transfer_To tr | tr. \<exists>d c l. alive f d c \<and> l \<in> set (Call_Logs c) \<and>
                DecodeTransfer G (Log_Address l) (Log_Topics l) (Log_Data l) = Some (Some tr)}"
proof -
  have from_tx: "distinct (Analysis_Addresses (FromTx tx))"
    "set (Analysis_Addresses (FromTx tx)) =
       {Decoded_From tx} \<union> {t. Tx_To (Decoded_Tx tx) = Some t}"
    by (auto simp: FromTx_def split: option.split)
  have "set (addresses_of G (live 0 f)) =
      {t. \<exists>d c. (d, c) \<in> set (live 0 f) \<and> Call_To c = Some t}
      \<union> {Transfer_To tr | tr. \<exists>d c l. (d, c) \<in> set (live 0 f) \<and> l \<in> set (Call_Logs c) \<and>
           DecodeTransfer G (Log_Address l) (Log_Topics l) (Log_Data l) = Some (Some tr)}"
    unfolding addresses_of_def set_concat set_map
    by (auto simp: frame_addresses_mem) (metis snd_conv)+
  with from_tx show ?thesis
    by (simp add: Build_fields(3) [OF assms] set_add_new distinct_add_new live_iff_alive Un_assoc)
qed

text \<open>
  C7. The addresses handed to the sanctions rule are, without duplicates, exactly the sender, the
  recipient, every contract called or created by a frame that is not rolled back, and the recipient
  of every ERC-20 or ERC-721 transfer such a frame logs.
\<close>

theorem Build_addresses:
  assumes "Build G tx (Some f) = Some a"
  shows "distinct (Analysis_Addresses a) \<and>
         set (Analysis_Addresses a) =
           {Decoded_From tx} \<union> {t. Tx_To (Decoded_Tx tx) = Some t}
           \<union> {t. \<exists>d c. alive f d c \<and> Call_To c = Some t}
           \<union> {Transfer_To tr | tr. \<exists>d c l. alive f d c \<and> l \<in> set (Call_Logs c) \<and>
                DecodeTransfer G (Log_Address l) (Log_Topics l) (Log_Data l) = Some (Some tr)}"
  by (rule Build_address_set [OF assms])

text \<open>
  On the flattened trace, \<open>SubtreeEnd\<close> is the end of the frame's descendants: the frames
  between \<open>i\<close> and \<open>SubtreeEnd i\<close> are exactly the live frames below the \<open>i\<close>-th live frame, in
  execution order.
\<close>

lemma SubtreeEnd_live:
  assumes "i < length (live 0 f)" and "live 0 f ! i = (d, c)"
  shows "SubtreeEnd (frames_of (live 0 f)) i = Some (Suc i + length (live_calls (Suc d) (Call_Calls c)))"
    and "take (length (live_calls (Suc d) (Call_Calls c))) (drop (Suc i) (live 0 f)) =
      live_calls (Suc d) (Call_Calls c)"
proof -
  let ?sub = "live_calls (Suc d) (Call_Calls c)"
  from assms have split: "live 0 f = take i (live 0 f) @ (d, c) # drop (Suc i) (live 0 f)"
    by (metis id_take_nth_drop)
  from live_split [OF split] obtain ys where
    ys: "drop (Suc i) (live 0 f) = ?sub @ ys" "ys = [] \<or> fst (hd ys) \<le> d"
    by (auto simp: split_at_frame_def)
  then show "take (length ?sub) (drop (Suc i) (live 0 f)) = ?sub" by simp
  have "SubtreeEnd (frames_of (live 0 f)) (length (frames_of (take i (live 0 f)))) =
      Some (Suc (length (frames_of (take i (live 0 f)))) + length (frames_of ?sub))"
  proof (rule SubtreeEnd_split)
    show "frames_of (live 0 f) =
        frames_of (take i (live 0 f)) @ frame_of d c # frames_of ?sub @ frames_of ys"
      by (subst split) (simp add: frames_of_def ys(1))
    show "\<forall>g \<in> set (frames_of ?sub). Frame_Depth (frame_of d c) < Frame_Depth g"
      using live_calls_depth by (fastforce simp: frames_of_def frame_of_def)
    show "frames_of ys = [] \<or> Frame_Depth (hd (frames_of ys)) \<le> Frame_Depth (frame_of d c)"
      using ys(2) by (cases ys) (auto simp: frames_of_def frame_of_def)
  qed
  then show "SubtreeEnd (frames_of (live 0 f)) i = Some (Suc i + length ?sub)"
    using assms(1) by (simp add: frames_of_def)
qed

subsection \<open>An example trace\<close>

definition plain_call ::
  "string \<Rightarrow> address \<Rightarrow> address \<Rightarrow> int \<Rightarrow> string \<Rightarrow> Log list \<Rightarrow> CallFrame list \<Rightarrow> CallFrame" where
  "plain_call ty sender to val er logs calls =
     CallFrame ty sender (Some to) (Some val) 0 0 [] [] er logs calls"

definition transfer_log :: "geth \<Rightarrow> address \<Rightarrow> address \<Rightarrow> address \<Rightarrow> int \<Rightarrow> Log" where
  "transfer_log G token sender to n =
     \<lparr>Log_Address = token, Log_Topics = [transferTopic G, address_word sender, address_word to],
      Log_Data = be_bytes 32 n\<rparr>"

text \<open>
  Address 1 calls contract 2, which deploys contract 7, calls contract 66 in a frame that reverts,
  and pays 40 units of token 9 to address 8.
\<close>

definition example_trace :: CallFrame where
  "example_trace =
     plain_call ''CALL'' 1 2 0 '''' [transfer_log geth_model 9 2 8 40]
       [plain_call ''CREATE'' 2 7 0 '''' [] [plain_call ''CALL'' 7 2 0 '''' [] []],
        plain_call ''CALL'' 2 66 0 ''execution reverted'' [] [],
        plain_call ''CALL'' 2 7 0 '''' [] []]"

definition example_tx :: Decoded where
  "example_tx =
     \<lparr>Decoded_Tx = \<lparr>Tx_To = Some 2, Tx_Gas = 100000, Tx_Value = 0, Tx_Data = [], Tx_Hash = 5,
        Tx_Type = 2, Tx_Nonce = 0, Tx_ChainId = 1\<rparr>,
      Decoded_From = 1\<rparr>"

lemma example_trace_live:
  "live 0 example_trace =
     [(0, example_trace),
      (1, plain_call ''CREATE'' 2 7 0 '''' [] [plain_call ''CALL'' 7 2 0 '''' [] []]),
      (2, plain_call ''CALL'' 7 2 0 '''' [] []),
      (1, plain_call ''CALL'' 2 7 0 '''' [] [])]"
  by (simp add: example_trace_def plain_call_def)

theorem Build_addresses_witness:
  "\<exists>a. Build geth_model example_tx (Some example_trace) = Some a \<and> 7 \<in> set (Analysis_Addresses a)"
proof -
  obtain a where a: "Build geth_model example_tx (Some example_trace) = Some a"
    using Build_defined by blast
  have "alive example_trace 1 (plain_call ''CREATE'' 2 7 0 '''' [] [plain_call ''CALL'' 7 2 0 '''' [] []])"
    by (simp flip: live_iff_alive add: example_trace_live)
  moreover have "Call_To (plain_call ''CREATE'' 2 7 0 '''' [] [plain_call ''CALL'' 7 2 0 '''' [] []]) =
      Some 7"
    by (simp add: plain_call_def)
  ultimately have "7 \<in> set (Analysis_Addresses a)"
    using Build_addresses [OF a] by blast
  with a show ?thesis by blast
qed

end
