(* ===== verification/SanctionsCache.thy ===== *)
theory SanctionsCache
  imports Sanctions
begin

text \<open>
  Package \<open>internal/sanctions\<close>, \<open>cache.go\<close>: \<open>CachedChecker\<close> remembers the answers of a slower
  checker for a limited time. One lookup is a computation; lookups of several goroutines are a step
  relation whose steps are the sections of \<open>IsSanctioned\<close> between which the lock is free. Times are
  integers (nanoseconds); the clock is a function of the outside world.
\<close>

record 'e CachedChecker =
  cc_next :: "'e world Checker"
  cc_ttl :: int
  cc_maxEntries :: int
  cc_now :: "'e \<Rightarrow> int"

text \<open>\<open>NewCachedChecker\<close>: \<open>time_now\<close> is \<open>time.Now\<close>. The map it makes is the empty \<open>w_entries\<close> of the initial world.\<close>

definition NewCachedChecker ::
  "('e \<Rightarrow> int) \<Rightarrow> 'e world Checker \<Rightarrow> int \<Rightarrow> int \<Rightarrow> 'e CachedChecker" where
  "NewCachedChecker time_now nxt ttl maxEntries =
     \<lparr>cc_next = nxt, cc_ttl = ttl, cc_maxEntries = maxEntries, cc_now = time_now\<rparr>"

text \<open>Reading the map: the entry, if there is one and it has not expired.\<close>

definition cache_hit :: "(address \<rightharpoonup> cacheEntry) \<Rightarrow> int \<Rightarrow> address \<Rightarrow> bool option" where
  "cache_hit entries now addr =
     (case entries addr of
        None \<Rightarrow> None
      | Some e \<Rightarrow> if now < ce_expires e then Some (ce_sanctioned e) else None)"

definition evict :: "'e CachedChecker \<Rightarrow> int \<Rightarrow> (address \<rightharpoonup> cacheEntry) \<Rightarrow> (address \<rightharpoonup> cacheEntry)" where
  "evict c now entries =
     (let left = (\<lambda>addr. case entries addr of
            None \<Rightarrow> None
          | Some e \<Rightarrow> if \<not> now < ce_expires e then None else Some e)
      in if int (card (dom left)) \<ge> cc_maxEntries c then Map.empty else left)"

definition cache_store ::
  "'e CachedChecker \<Rightarrow> int \<Rightarrow> address \<Rightarrow> bool \<Rightarrow> (address \<rightharpoonup> cacheEntry) \<Rightarrow> (address \<rightharpoonup> cacheEntry)" where
  "cache_store c now addr hit entries =
     (let kept = (if int (card (dom entries)) \<ge> cc_maxEntries c then evict c now entries else entries)
      in kept(addr \<mapsto> \<lparr>ce_sanctioned = hit, ce_expires = now + cc_ttl c\<rparr>))"

definition CachedChecker_IsSanctioned :: "'e CachedChecker \<Rightarrow> 'e world Checker" where
  "CachedChecker_IsSanctioned c addr w =
     (let now = cc_now c (w_ext w)
      in case cache_hit (w_entries w) now addr of
           Some sanctioned \<Rightarrow> (Ok sanctioned, w)
         | None \<Rightarrow>
             io_bind (cc_next c addr)
               (\<lambda>hit w'. (Ok hit, w'\<lparr>w_entries := cache_store c now addr hit (w_entries w')\<rparr>)) w)"

subsection \<open>What the cache keeps\<close>

lemma evict_le: "evict c now entries a = Some e \<Longrightarrow> entries a = Some e \<and> now < ce_expires e"
  by (auto simp: evict_def Let_def split: if_splits option.splits)

lemma dom_evict: "dom (evict c now entries) \<subseteq> dom entries"
  by (auto dest: evict_le)

lemma card_evict:
  "finite (dom entries) \<Longrightarrow> int (card (dom (evict c now entries))) \<le> max 0 (cc_maxEntries c - 1)"
  by (auto simp: evict_def Let_def)

lemma cache_store_cases:
  "cache_store c now addr hit entries a = Some e \<Longrightarrow>
     a = addr \<and> e = \<lparr>ce_sanctioned = hit, ce_expires = now + cc_ttl c\<rparr> \<or> entries a = Some e"
  by (auto simp: cache_store_def Let_def dest: evict_le split: if_splits)

lemma cache_store_self: "cache_store c now addr hit entries addr =
    Some \<lparr>ce_sanctioned = hit, ce_expires = now + cc_ttl c\<rparr>"
  by (simp add: cache_store_def Let_def)

lemma card_cache_store:
  assumes "finite (dom entries)" and "int (card (dom entries)) \<le> max 1 (cc_maxEntries c)"
  shows "finite (dom (cache_store c now addr hit entries)) \<and>
    int (card (dom (cache_store c now addr hit entries))) \<le> max 1 (cc_maxEntries c)"
proof -
  define kept where
    "kept = (if int (card (dom entries)) \<ge> cc_maxEntries c then evict c now entries else entries)"
  have fin: "finite (dom kept)"
    using assms(1) finite_subset [OF dom_evict] by (auto simp: kept_def)
  have "int (card (dom kept)) \<le> max 0 (cc_maxEntries c - 1)"
    using card_evict [OF assms(1), of c now] by (auto simp: kept_def)
  then have "int (card (insert addr (dom kept))) \<le> max 1 (cc_maxEntries c)"
    using card_insert_le_m1 [of "nat (max 1 (cc_maxEntries c))" "dom kept" addr] by linarith
  moreover have "cache_store c now addr hit entries = kept(addr \<mapsto> \<lparr>ce_sanctioned = hit, ce_expires = now + cc_ttl c\<rparr>)"
    by (simp add: cache_store_def kept_def Let_def)
  ultimately show ?thesis using fin by simp
qed

subsection \<open>One lookup\<close>

text \<open>Over a checker that does not touch the cache itself, while what is sanctioned does not change.\<close>

definition entries_true :: "(address \<Rightarrow> bool option) \<Rightarrow> (address \<rightharpoonup> cacheEntry) \<Rightarrow> bool" where
  "entries_true answer entries \<longleftrightarrow> (\<forall>a e. entries a = Some e \<longrightarrow> answer a = Some (ce_sanctioned e))"

lemma entries_true_store:
  "entries_true answer entries \<Longrightarrow> answer a = Some h \<Longrightarrow> entries_true answer (cache_store c now a h entries)"
  unfolding entries_true_def by (auto dest!: cache_store_cases)

locale cached_checker = partial_lookup nxt inv answer
  for nxt :: "'e world Checker" and inv :: "'e world \<Rightarrow> bool" and answer :: "address \<Rightarrow> bool option" +
  fixes ttl m :: int and clock :: "'e \<Rightarrow> int"
  assumes nxt_entries: "nxt addr w = (r, t) \<Longrightarrow> w_entries t = w_entries w"
    and inv_entries: "inv (w\<lparr>w_entries := E\<rparr>) \<longleftrightarrow> inv w"
begin

abbreviation checker :: "'e world Checker" where
  "checker \<equiv> CachedChecker_IsSanctioned (NewCachedChecker clock nxt ttl m)"

lemma checker_miss:
  assumes "cache_hit (w_entries w) (clock (w_ext w)) addr = None"
  shows "checker addr w =
    io_bind (nxt addr)
      (\<lambda>hit w'. (Ok hit, w'\<lparr>w_entries :=
         cache_store (NewCachedChecker clock nxt ttl m) (clock (w_ext w)) addr hit (w_entries w')\<rparr>)) w"
  using assms by (simp add: CachedChecker_IsSanctioned_def NewCachedChecker_def Let_def)

lemma checker_hit:
  assumes "cache_hit (w_entries w) (clock (w_ext w)) addr = Some b"
  shows "checker addr w = (Ok b, w)"
  using assms by (simp add: CachedChecker_IsSanctioned_def NewCachedChecker_def Let_def)

lemma cache_hit_true: "entries_true answer E \<Longrightarrow> cache_hit E now addr = Some b \<Longrightarrow> answer addr = Some b"
  by (auto simp: cache_hit_def entries_true_def split: option.splits if_splits)

lemma checker_safe:
  "safe (\<lambda>w. inv w \<and> entries_true answer (w_entries w)) (checker addr) (\<lambda>b. answer addr = Some b)"
  unfolding safe_def
proof (intro allI impI)
  fix w r t
  assume w: "inv w \<and> entries_true answer (w_entries w)" and eq: "checker addr w = (r, t)"
  show "(inv t \<and> entries_true answer (w_entries t)) \<and> r \<noteq> Panic \<and> (\<forall>b. r = Ok b \<longrightarrow> answer addr = Some b)"
  proof (cases "cache_hit (w_entries w) (clock (w_ext w)) addr")
    case None
    obtain q u where u: "nxt addr w = (q, u)" by (cases "nxt addr w")
    have u': "inv u" "w_entries u = w_entries w" "q \<noteq> Panic"
      using safeD(1,3) [OF get_answer, of w addr] w u nxt_entries [OF u] by auto
    show ?thesis
    proof (cases q)
      case (Ok v)
      then have "answer addr = Some v" using safeD(2) [OF get_answer, of w addr] w u by blast
      with eq u Ok checker_miss [OF None] u' w show ?thesis
        by (auto simp: io_bind_def inv_entries entries_true_store)
    next
      case (Err e)
      with eq u checker_miss [OF None] u' w show ?thesis by (auto simp: io_bind_def)
    qed (use u' in simp)
  next
    case (Some b)
    have "r = Ok b" "t = w" using eq unfolding checker_hit [OF Some] by simp_all
    moreover have "answer addr = Some b" using cache_hit_true [OF _ Some] w by blast
    ultimately show ?thesis using w by simp
  qed
qed

lemma checker_bounded:
  assumes "finite (dom (w_entries w))" and "int (card (dom (w_entries w))) \<le> max 1 m"
    and "checker addr w = (r, t)"
  shows "finite (dom (w_entries t)) \<and> int (card (dom (w_entries t))) \<le> max 1 m"
proof (cases "cache_hit (w_entries w) (clock (w_ext w)) addr")
  case None
  obtain q u where u: "nxt addr w = (q, u)" by (cases "nxt addr w")
  then have "finite (dom (w_entries u))" "int (card (dom (w_entries u))) \<le> max 1 m"
    using assms nxt_entries [OF u] by simp_all
  with assms(3) u card_cache_store [of "w_entries u" "NewCachedChecker clock nxt ttl m"] show ?thesis
    unfolding checker_miss [OF None]
    by (cases q) (auto simp: io_bind_def NewCachedChecker_def)
next
  case (Some b)
  with assms checker_hit [OF Some] show ?thesis by simp
qed

end

sublocale cached_checker \<subseteq> cached: partial_lookup
  "CachedChecker_IsSanctioned (NewCachedChecker clock nxt ttl m)"
  "\<lambda>w. inv w \<and> entries_true answer (w_entries w)" answer
  by unfold_locales (rule checker_safe)

interpretation oracle_cache: cached_checker
  "OracleChecker_IsSanctioned G \<lparr>oc_caller = N, oc_oracle = orc\<rparr>"
  "rf_inv c ch I (\<lambda>k e. serves N dh I \<and> K k)" "oracle_answer G dh orc" ttl m clock
  for G N orc c ch I K dh ttl m clock
proof (intro cached_checker.intro cached_checker_axioms.intro)
  show "partial_lookup (OracleChecker_IsSanctioned G \<lparr>oc_caller = N, oc_oracle = orc\<rparr>)
      (rf_inv c ch I (\<lambda>k e. serves N dh I \<and> K k)) (oracle_answer G dh orc)"
    by (rule oc_other.partial_lookup_axioms)
qed (auto simp: rf_inv_def dest: ext_onlyD [OF ext_only_Oracle])

subsection \<open>Concurrent lookups\<close>

text \<open>
  Each goroutine is in one of the phases between the sections of \<open>IsSanctioned\<close>: the clock has been
  read (\<open>Looking\<close>), the entry was missing or expired (\<open>Asking\<close>), the checker behind answered
  (\<open>Storing\<close>), the call has returned a verdict (\<open>Answered\<close>) or has not started or failed (\<open>Idle\<close>).
  The checker behind answers (step \<open>answer\<close>) or fails at any time (step \<open>fail\<close>, after which nothing is
  stored, as in the source).
  The clock moves on at any moment, and what is sanctioned changes with it: \<open>truth q a\<close> says whether
  \<open>a\<close> is sanctioned at time \<open>q\<close>.
\<close>

datatype phase =
    Idle
  | Looking address int
  | Asking address int
  | Storing address int bool
  | Answered address int bool

record cc_state =
  cs_entries :: "address \<rightharpoonup> cacheEntry"
  cs_clock :: int
  cs_phase :: "nat \<Rightarrow> phase"

definition cc_init :: "int \<Rightarrow> cc_state" where
  "cc_init t = \<lparr>cs_entries = Map.empty, cs_clock = t, cs_phase = (\<lambda>_. Idle)\<rparr>"

definition set_phase :: "nat \<Rightarrow> phase \<Rightarrow> cc_state \<Rightarrow> cc_state" where
  "set_phase i p s = s\<lparr>cs_phase := (cs_phase s)(i := p)\<rparr>"

inductive cc_step :: "'e CachedChecker \<Rightarrow> (int \<Rightarrow> address \<Rightarrow> bool) \<Rightarrow> cc_state \<Rightarrow> cc_state \<Rightarrow> bool"
  for c truth where
  tick: "cs_clock s \<le> t \<Longrightarrow> cc_step c truth s (s\<lparr>cs_clock := t\<rparr>)"
| start: "cs_phase s i = Idle \<or> cs_phase s i = Answered b now' h \<Longrightarrow>
    cc_step c truth s (set_phase i (Looking a (cs_clock s)) s)"
| hit: "cs_phase s i = Looking a now \<Longrightarrow> cache_hit (cs_entries s) now a = Some h \<Longrightarrow>
    cc_step c truth s (set_phase i (Answered a now h) s)"
| miss: "cs_phase s i = Looking a now \<Longrightarrow> cache_hit (cs_entries s) now a = None \<Longrightarrow>
    cc_step c truth s (set_phase i (Asking a now) s)"
| answer: "cs_phase s i = Asking a now \<Longrightarrow>
    cc_step c truth s (set_phase i (Storing a now (truth (cs_clock s) a)) s)"
| fail: "cs_phase s i = Asking a now \<Longrightarrow> cc_step c truth s (set_phase i Idle s)"
| store: "cs_phase s i = Storing a now h \<Longrightarrow>
    cc_step c truth s
      (set_phase i (Answered a now h) (s\<lparr>cs_entries := cache_store c now a h (cs_entries s)\<rparr>))"

inductive cc_reach :: "'e CachedChecker \<Rightarrow> (int \<Rightarrow> address \<Rightarrow> bool) \<Rightarrow> cc_state \<Rightarrow> bool"
  for c truth where
  init: "cc_reach c truth (cc_init t)"
| step: "cc_reach c truth s \<Longrightarrow> cc_step c truth s s' \<Longrightarrow> cc_reach c truth s'"

text \<open>\<open>h\<close> was the truth about \<open>a\<close> at some time after \<open>since\<close> and up to now.\<close>

definition known_since :: "(int \<Rightarrow> address \<Rightarrow> bool) \<Rightarrow> cc_state \<Rightarrow> int \<Rightarrow> address \<Rightarrow> bool \<Rightarrow> bool" where
  "known_since truth s since a h \<longleftrightarrow> (\<exists>q. since \<le> q \<and> q \<le> cs_clock s \<and> h = truth q a)"

fun phase_ok :: "'e CachedChecker \<Rightarrow> (int \<Rightarrow> address \<Rightarrow> bool) \<Rightarrow> cc_state \<Rightarrow> phase \<Rightarrow> bool" where
  "phase_ok c truth s Idle \<longleftrightarrow> True"
| "phase_ok c truth s (Looking a now) \<longleftrightarrow> now \<le> cs_clock s"
| "phase_ok c truth s (Asking a now) \<longleftrightarrow> now \<le> cs_clock s"
| "phase_ok c truth s (Storing a now h) \<longleftrightarrow> known_since truth s now a h"
| "phase_ok c truth s (Answered a now h) \<longleftrightarrow> known_since truth s (now - cc_ttl c + 1) a h"

definition cc_inv :: "'e CachedChecker \<Rightarrow> (int \<Rightarrow> address \<Rightarrow> bool) \<Rightarrow> cc_state \<Rightarrow> bool" where
  "cc_inv c truth s \<longleftrightarrow>
     (\<forall>i. phase_ok c truth s (cs_phase s i)) \<and>
     (\<forall>a e. cs_entries s a = Some e \<longrightarrow> known_since truth s (ce_expires e - cc_ttl c) a (ce_sanctioned e)) \<and>
     finite (dom (cs_entries s)) \<and> int (card (dom (cs_entries s))) \<le> max 1 (cc_maxEntries c)"

lemma known_since_mono:
  "known_since truth s since a h \<Longrightarrow> since' \<le> since \<Longrightarrow> cs_clock s \<le> cs_clock s' \<Longrightarrow>
   known_since truth s' since' a h"
  unfolding known_since_def by (meson order_trans)

lemma phase_ok_mono: "phase_ok c truth s p \<Longrightarrow> cs_clock s \<le> cs_clock s' \<Longrightarrow> phase_ok c truth s' p"
  by (cases p) (auto intro: known_since_mono)

lemma cc_inv_set_phase:
  assumes "cc_inv c truth s" and "phase_ok c truth s p"
  shows "cc_inv c truth (set_phase i p s)"
proof -
  have c: "cs_clock (set_phase i p s) = cs_clock s" by (simp add: set_phase_def)
  then have "phase_ok c truth (set_phase i p s) q \<longleftrightarrow> phase_ok c truth s q" for q
    using phase_ok_mono [of c truth s q "set_phase i p s"] phase_ok_mono [of c truth "set_phase i p s" q s]
    by auto
  moreover have "known_since truth (set_phase i p s) = known_since truth s"
    by (simp add: known_since_def [abs_def] c)
  ultimately show ?thesis
    using assms by (simp add: cc_inv_def) (simp add: set_phase_def)
qed

lemma cc_inv_clock: "cc_inv c truth s \<Longrightarrow> cs_clock s \<le> t \<Longrightarrow> cc_inv c truth (s\<lparr>cs_clock := t\<rparr>)"
  unfolding cc_inv_def
  by (auto intro: phase_ok_mono [of c truth s _ "s\<lparr>cs_clock := t\<rparr>"]
      intro!: known_since_mono [of truth s _ _ _ _ "s\<lparr>cs_clock := t\<rparr>"])

lemma cc_inv_store:
  assumes "cc_inv c truth s" and "known_since truth s now a h"
  shows "cc_inv c truth (s\<lparr>cs_entries := cache_store c now a h (cs_entries s)\<rparr>)"
proof -
  let ?s = "s\<lparr>cs_entries := cache_store c now a h (cs_entries s)\<rparr>"
  have "phase_ok c truth ?s (cs_phase s i)" for i
    using assms(1) phase_ok_mono [of c truth s "cs_phase s i" ?s] by (simp add: cc_inv_def)
  moreover have "known_since truth ?s (ce_expires e - cc_ttl c) b (ce_sanctioned e)"
    if "cache_store c now a h (cs_entries s) b = Some e" for b e
    using cache_store_cases [OF that] assms by (auto simp: cc_inv_def known_since_def)
  moreover note card_cache_store [of "cs_entries s" c now a h]
  ultimately show ?thesis using assms(1) by (simp add: cc_inv_def)
qed

lemma cache_hit_known:
  assumes "cc_inv c truth s" and "cache_hit (cs_entries s) now a = Some h"
  shows "known_since truth s (now - cc_ttl c + 1) a h"
  using assms by (fastforce simp: cc_inv_def cache_hit_def split: option.splits if_splits intro: known_since_mono)

lemma cc_inv_init: "cc_inv c truth (cc_init t)"
  by (simp add: cc_inv_def cc_init_def)

lemma cc_inv_phase: "cc_inv c truth s \<Longrightarrow> cs_phase s i = p \<Longrightarrow> phase_ok c truth s p"
  by (auto simp: cc_inv_def)

lemma cc_inv_step:
  assumes "cc_step c truth s s'" and "cc_inv c truth s" and "0 < cc_ttl c"
  shows "cc_inv c truth s'"
  using assms(1)
proof cases
  case (tick t)
  with assms show ?thesis by (simp add: cc_inv_clock)
next
  case (start i b now' h a)
  with assms show ?thesis by (simp add: cc_inv_set_phase)
next
  case (hit i a now h)
  with assms show ?thesis by (simp add: cc_inv_set_phase cache_hit_known)
next
  case (miss i a now)
  with assms cc_inv_phase [OF assms(2) miss(2)] show ?thesis by (simp add: cc_inv_set_phase)
next
  case (answer i a now)
  with cc_inv_phase [OF assms(2) answer(2)] have "known_since truth s now a (truth (cs_clock s) a)"
    by (auto simp: known_since_def)
  with assms answer show ?thesis by (simp add: cc_inv_set_phase)
next
  case (fail i a now)
  with assms show ?thesis by (simp add: cc_inv_set_phase)
next
  case (store i a now h)
  let ?s = "s\<lparr>cs_entries := cache_store c now a h (cs_entries s)\<rparr>"
  have k: "known_since truth s now a h"
    using cc_inv_phase [OF assms(2) store(2)] by simp
  then have "known_since truth ?s (now - cc_ttl c + 1) a h"
    by (rule known_since_mono) (use assms(3) in simp_all)
  with cc_inv_store [OF assms(2) k] show ?thesis
    unfolding store by (intro cc_inv_set_phase) simp_all
qed

lemma cc_inv_reach: "cc_reach c truth s \<Longrightarrow> 0 < cc_ttl c \<Longrightarrow> cc_inv c truth s"
  by (induction rule: cc_reach.induct) (auto intro: cc_inv_init cc_inv_step)

lemma cc_step_size:
  assumes "cc_step c truth s s'" and "finite (dom (cs_entries s))"
    and "int (card (dom (cs_entries s))) \<le> max 1 (cc_maxEntries c)"
  shows "finite (dom (cs_entries s')) \<and> int (card (dom (cs_entries s'))) \<le> max 1 (cc_maxEntries c)"
  using assms(1)
  by cases (use assms(2,3) card_cache_store [OF assms(2,3)] in \<open>simp_all add: set_phase_def\<close>)

text \<open>A run of one lookup of address 7 (sanctioned since time 3), asked from the checker behind at time 5.\<close>

definition example_cache :: "unit CachedChecker" where
  "example_cache =
     NewCachedChecker (\<lambda>_. 0) (ListChecker_IsSanctioned (NewListChecker [7])) 600 1"

definition example_answered :: cc_state where
  "example_answered =
     \<lparr>cs_entries = [7 \<mapsto> \<lparr>ce_sanctioned = True, ce_expires = 605\<rparr>], cs_clock = 5,
      cs_phase = (\<lambda>i. if i = 0 then Answered 7 5 True else Idle)\<rparr>"

lemma example_cache_reach: "cc_reach example_cache (\<lambda>q a. a = 7 \<and> 3 \<le> q) example_answered"
proof -
  let ?st = "cc_step example_cache (\<lambda>q a. a = 7 \<and> 3 \<le> q)"
  let ?s0 = "cc_init 5"
  let ?s1 = "set_phase 0 (Looking 7 5) ?s0"
  let ?s2 = "set_phase 0 (Asking 7 5) ?s1"
  let ?s3 = "set_phase 0 (Storing 7 5 True) ?s2"
  let ?s4 = "set_phase 0 (Answered 7 5 True)
    (?s3\<lparr>cs_entries := cache_store example_cache 5 7 True (cs_entries ?s3)\<rparr>)"
  have "?st ?s0 ?s1"
    using cc_step.start [of ?s0 0 0 0 False example_cache _ 7] by (simp add: cc_init_def)
  moreover have "?st ?s1 ?s2"
    by (rule cc_step.miss) (simp_all add: set_phase_def cc_init_def cache_hit_def)
  moreover have "?st ?s2 ?s3"
    using cc_step.answer [of ?s2 0 7 5 example_cache "\<lambda>q a. a = 7 \<and> 3 \<le> q"]
    by (simp add: set_phase_def cc_init_def)
  moreover have "?st ?s3 ?s4" by (rule cc_step.store) (simp add: set_phase_def)
  moreover have "?s4 = example_answered"
    by (auto simp: example_answered_def set_phase_def cc_init_def cache_store_def example_cache_def
        NewCachedChecker_def)
  ultimately show ?thesis
    by (metis cc_reach.init cc_reach.step)
qed

text \<open>
  C12. A cached answer is never older than the time to live, whatever lookups run at the same time:
  when a lookup that read the clock at \<open>now\<close> has returned \<open>h\<close> for \<open>a\<close>, there is a moment later than
  \<open>now - ttl\<close> at which \<open>h\<close> was the truth about \<open>a\<close>. So a newly sanctioned address passes for less
  than \<open>ttl\<close>, and likewise a cleared one is blocked for less than \<open>ttl\<close>.
\<close>

theorem CachedChecker_staleness:
  assumes "cc_reach c truth s" and "0 < cc_ttl c" and "cs_phase s i = Answered a now h"
  shows "\<exists>q. now - cc_ttl c < q \<and> q \<le> cs_clock s \<and> h = truth q a"
  using cc_inv_phase [OF cc_inv_reach [OF assms(1,2)] assms(3)]
  unfolding phase_ok.simps known_since_def add1_zle_eq .

theorem CachedChecker_staleness_witness:
  "cc_reach example_cache (\<lambda>q a. a = 7 \<and> 3 \<le> q) example_answered \<and>
   (\<exists>q. 5 - 600 < q \<and> q \<le> (5 :: int) \<and> True = (7 = (7 :: address) \<and> 3 \<le> q))"
  using CachedChecker_staleness [OF example_cache_reach, of 0 7 5 True] example_cache_reach
  by (simp add: example_cache_def NewCachedChecker_def example_answered_def)

text \<open>
  C31. The answer cache is bounded under concurrent lookups: it never holds more than \<open>maxEntries\<close>
  answers, or one when \<open>maxEntries\<close> is not positive (the constructor does not refuse that).
\<close>

theorem CachedChecker_bounded:
  assumes "cc_reach c truth s"
  shows "finite (dom (cs_entries s)) \<and> int (card (dom (cs_entries s))) \<le> max 1 (cc_maxEntries c)"
  using assms
proof (induction rule: cc_reach.induct)
  case (init t)
  then show ?case by (simp add: cc_init_def)
next
  case (step s s')
  then show ?case using cc_step_size by blast
qed

theorem CachedChecker_bounded_witness:
  "cc_maxEntries example_cache = 1 \<and> dom (cs_entries example_answered) = {7} \<and>
   int (card (dom (cs_entries example_answered))) \<le> 1"
  using CachedChecker_bounded [OF example_cache_reach]
  by (simp add: example_cache_def NewCachedChecker_def) (simp add: example_answered_def)

subsection \<open>The checker the firewall uses\<close>

text \<open>The list first, then the cached oracle.\<close>

interpretation both: checkers
  "[ListChecker_IsSanctioned l,
    CachedChecker_IsSanctioned (NewCachedChecker clock
      (OracleChecker_IsSanctioned G \<lparr>oc_caller = N, oc_oracle = orc\<rparr>) ttl m)]"
  "\<lambda>w. rf_inv c ch I (\<lambda>k e. serves N dh I \<and> K k) w \<and> entries_true (oracle_answer G dh orc) (w_entries w)"
  "[\<lambda>a. Some (a \<in> lc_set l), oracle_answer G dh orc]"
  for l clock G N orc ttl m c ch I dh K
  by unfold_locales
    (intro list_all2_Cons [THEN iffD2] conjI list_all2_Nil [THEN iffD2] refl
      list_answer.partial_lookup_axioms oracle_cache.cached.partial_lookup_axioms)

text \<open>A lookup that is not answered from the cache fails when the oracle's node does.\<close>

lemma cached_oracle_fails:
  assumes "cache_hit (w_entries w) (clock (w_ext w)) addr = None"
    and "node_CallContract N orc (isSanctionedCalldata G addr) None (w_ext w) = (Inl er, x)"
  shows "CachedChecker_IsSanctioned (NewCachedChecker clock
      (OracleChecker_IsSanctioned G \<lparr>oc_caller = N, oc_oracle = orc\<rparr>) ttl m) addr w =
    (Err (Wrapped ''sanctions oracle call: '' er ''''), w\<lparr>w_ext := x\<rparr>)"
  using assms
  by (simp add: CachedChecker_IsSanctioned_def NewCachedChecker_def OracleChecker_IsSanctioned_def
      io_bind_def on_err_def ext_call_def)

text \<open>
  C11. The sanctions check of the firewall, the list and then the cached oracle. While the oracle's
  node answers from one chain state or fails, and the cached answers agree with that state:
  \<^item> a listed address is reported without asking the oracle;
  \<^item> for any other address a verdict is exactly the boolean the oracle contract answers;
  \<^item> where the contract reverts or answers anything but an encoded boolean, the check is an error;
  \<^item> when the answer is not cached and the call to the node fails, with a JSON-RPC error or
    otherwise, the check is an error, never a clean verdict;
  \<^item> it does not panic.
\<close>

theorem sanctions_check_correct:
  fixes G clock N orc ttl m
  defines "orac \<equiv> CachedChecker_IsSanctioned (NewCachedChecker clock
      (OracleChecker_IsSanctioned G \<lparr>oc_caller = N, oc_oracle = orc\<rparr>) ttl m)"
  assumes "serves N dh I" and "I (w_ext w)" and "entries_true (oracle_answer G dh orc) (w_entries w)"
    and run: "AnyChecker_IsSanctioned [ListChecker_IsSanctioned l, orac] addr w = (r, t)"
  shows "(addr \<in> lc_set l \<longrightarrow> r = Ok True \<and> t = w) \<and>
    (addr \<notin> lc_set l \<longrightarrow> (\<exists>b. r = Ok b \<and> oracle_answer G dh orc addr = Some b) \<or> (\<exists>e. r = Err e)) \<and>
    (addr \<notin> lc_set l \<longrightarrow> oracle_answer G dh orc addr = None \<longrightarrow> (\<exists>e. r = Err e)) \<and>
    (addr \<notin> lc_set l \<longrightarrow> cache_hit (w_entries w) (clock (w_ext w)) addr = None \<longrightarrow>
       (\<exists>er x. node_CallContract N orc (isSanctionedCalldata G addr) None (w_ext w) = (Inl er, x)) \<longrightarrow>
       (\<exists>e. r = Err e))"
proof -
  have w: "rf_inv \<lparr>rf_reader = N, rf_window = 0\<rparr> dh I (\<lambda>k e. serves N dh I \<and> True) w \<and>
      entries_true (oracle_answer G dh orc) (w_entries w)"
    using assms by (simp add: rf_inv_def)
  note s = safeD [OF both.any_safe w, of l clock ttl m addr, folded orac_def]
  have listed: "r = Ok True \<and> t = w" if "addr \<in> lc_set l"
    using run that by (simp add: ListChecker_IsSanctioned_def io_bind_def ret_def)
  have other: "(\<exists>b. r = Ok b \<and> oracle_answer G dh orc addr = Some b) \<or> (\<exists>e. r = Err e)"
    if "addr \<notin> lc_set l"
    using s(2,3) run that by (cases r) (auto split: option.splits bool.splits)
  have fails: "\<exists>e. r = Err e"
    if "addr \<notin> lc_set l" "cache_hit (w_entries w) (clock (w_ext w)) addr = None"
      "node_CallContract N orc (isSanctionedCalldata G addr) None (w_ext w) = (Inl er, x)" for er x
    using run that(1) cached_oracle_fails [where clock = clock, OF that(2,3), of ttl m]
    by (auto simp: ListChecker_IsSanctioned_def io_bind_def ret_def orac_def)
  show ?thesis using listed other fails by auto
qed

text \<open>Address 7 is listed; for address 8 the contract at 9 returns 100, which is no boolean.\<close>

theorem sanctions_check_correct_witness:
  "fst (AnyChecker_IsSanctioned [ListChecker_IsSanctioned (NewListChecker [7]),
      CachedChecker_IsSanctioned (NewCachedChecker (\<lambda>_. 0)
        (OracleChecker_IsSanctioned geth_model \<lparr>oc_caller = chain_node example_chain, oc_oracle = 9\<rparr>) 600 10)]
      7 example_world) = Ok True \<and>
   (\<exists>e. fst (AnyChecker_IsSanctioned [ListChecker_IsSanctioned (NewListChecker [7]),
      CachedChecker_IsSanctioned (NewCachedChecker (\<lambda>_. 0)
        (OracleChecker_IsSanctioned geth_model \<lparr>oc_caller = chain_node example_chain, oc_oracle = 9\<rparr>) 600 10)]
      8 example_world) = Err e)"
proof -
  let ?run = "\<lambda>a. AnyChecker_IsSanctioned [ListChecker_IsSanctioned (NewListChecker [7]),
      CachedChecker_IsSanctioned (NewCachedChecker (\<lambda>_. 0)
        (OracleChecker_IsSanctioned geth_model \<lparr>oc_caller = chain_node example_chain, oc_oracle = 9\<rparr>) 600 10)]
      a example_world"
  have e: "entries_true (oracle_answer geth_model example_chain 9) (w_entries example_world)"
    by (simp add: entries_true_def example_world_def)
  have none: "oracle_answer geth_model example_chain 9 8 = None"
    by (simp add: oracle_answer_def example_chain_def be_bytes_inject_mod)
  obtain r t r' t' where rt: "?run 7 = (r, t)" "?run 8 = (r', t')" by (cases "?run 7"; cases "?run 8")
  from sanctions_check_correct [OF chain_node_serves _ e rt(1)] have "r = Ok True" by simp
  moreover from sanctions_check_correct [OF chain_node_serves _ e rt(2)] none have "\<exists>e. r' = Err e" by simp
  ultimately show ?thesis using rt by simp
qed

end
