(* ===== verification/Rules.thy ===== *)
theory Rules
  imports Analysis SanctionsCache
begin

text \<open>
  Package \<open>internal/rules\<close>: the rule interface (\<open>rules.go\<close>) and the rules that read the sanctions
  data or only the analysis (\<open>sanctioned.go\<close>, \<open>privilege.go\<close>, \<open>deploycall.go\<close>). The rules on contract
  age are in \<open>RulesFresh\<close>, those on outflows in \<open>RulesOutflow\<close>. The state a rule runs in is a type
  parameter: a rule only sees the lookups it was given.
\<close>

definition WeightHigh :: int where
  "WeightHigh = 40"

definition WeightMedium :: int where
  "WeightMedium = 20"

record Finding =
  Finding_Rule :: string
  Finding_HardBlock :: bool
  Finding_Weight :: int
  Finding_Reason :: string

record 's Rule =
  Rule_Name :: string
  Rule_Evaluate :: "Analysis \<Rightarrow> ('s, Finding list) io"

text \<open>\<open>[]Finding{{Rule: ..., Weight: ..., Reason: ...}}\<close>: one finding, not a hard block.\<close>

definition one_finding :: "string \<Rightarrow> int \<Rightarrow> string \<Rightarrow> Finding list" where
  "one_finding name weight reason =
     [\<lparr>Finding_Rule = name, Finding_HardBlock = False, Finding_Weight = weight, Finding_Reason = reason\<rparr>]"

subsection \<open>sanctioned.go\<close>

definition sanctioned_finding :: "geth \<Rightarrow> address \<Rightarrow> Finding" where
  "sanctioned_finding G addr =
     \<lparr>Finding_Rule = ''sanctioned-address'', Finding_HardBlock = True, Finding_Weight = 0,
      Finding_Reason = ''sanctioned address '' @ Address_Hex G addr\<rparr>"

fun sanctioned_loop :: "geth \<Rightarrow> 's Checker \<Rightarrow> Finding list \<Rightarrow> address list \<Rightarrow> ('s, Finding list) io" where
  "sanctioned_loop G checker findings [] = ret findings"
| "sanctioned_loop G checker findings (addr # addrs) =
     io_bind (on_err (\<lambda>e. Wrapped (''check '' @ Address_Hex G addr @ '': '') e '''') (checker addr))
       (\<lambda>hit. sanctioned_loop G checker
          (if hit then findings @ [sanctioned_finding G addr] else findings) addrs)"

definition NewSanctioned :: "geth \<Rightarrow> 's Checker \<Rightarrow> 's Rule" where
  "NewSanctioned G checker =
     \<lparr>Rule_Name = ''sanctioned-address'',
      Rule_Evaluate = (\<lambda>a. sanctioned_loop G checker [] (Analysis_Addresses a))\<rparr>"

subsection \<open>privilege.go\<close>

definition describePrivilegeChange :: "geth \<Rightarrow> PrivilegeChange \<Rightarrow> string" where
  "describePrivilegeChange G pc =
     (let contract = Address_Hex G (PrivilegeChange_Contract pc);
          subject = Address_Hex G (PrivilegeChange_Subject pc);
          kind = PrivilegeChange_Kind pc
      in if kind = OwnershipTransferred then ''ownership of '' @ contract @ '' transferred to '' @ subject
         else if kind = Upgraded then contract @ '' upgraded to implementation '' @ subject
         else if kind = AdminChanged then ''admin of '' @ contract @ '' changed to '' @ subject
         else if kind = RoleGranted then
           ''role '' @ Hash_Hex G (PrivilegeChange_Role pc) @ '' on '' @ contract @ '' granted to '' @ subject
         else kind @ '' on '' @ contract)"

fun privilege_loop :: "geth \<Rightarrow> Analysis \<Rightarrow> string list \<Rightarrow> PrivilegeChange list \<Rightarrow> string list" where
  "privilege_loop G a changes [] = changes"
| "privilege_loop G a changes (pc # pcs) =
     (if CreatedInTx a (PrivilegeChange_Contract pc) then privilege_loop G a changes pcs
      else privilege_loop G a (changes @ [describePrivilegeChange G pc]) pcs)"

definition PrivilegeChange_Evaluate :: "geth \<Rightarrow> Analysis \<Rightarrow> Finding list" where
  "PrivilegeChange_Evaluate G a =
     (let changes = privilege_loop G a [] (Analysis_Privileged a)
      in if length changes = 0 then []
         else one_finding ''privilege-change'' WeightHigh (''privilege change: '' @ join '', '' changes))"

definition NewPrivilegeChange :: "geth \<Rightarrow> 's Rule" where
  "NewPrivilegeChange G =
     \<lparr>Rule_Name = ''privilege-change'', Rule_Evaluate = (\<lambda>a. ret (PrivilegeChange_Evaluate G a))\<rparr>"

subsection \<open>deploycall.go\<close>

text \<open>A panic of \<open>SubtreeEnd\<close> is \<open>None\<close>.\<close>

fun deploy_loop ::
  "geth \<Rightarrow> Frame list \<Rightarrow> nat \<Rightarrow> (address \<rightharpoonup> nat) \<Rightarrow> (address \<Rightarrow> bool) \<Rightarrow> string list \<Rightarrow> Frame list \<Rightarrow>
   string list option" where
  "deploy_loop G frames i deployedAt reported called [] = Some called"
| "deploy_loop G frames i deployedAt reported called (f # fs) =
     (if IsCreate f then
        (case deployedAt (Frame_To f) of
           None \<Rightarrow> do {
             end_at \<leftarrow> SubtreeEnd frames i;
             deploy_loop G frames (i + 1) (deployedAt(Frame_To f \<mapsto> end_at)) reported called fs
           }
         | Some seen \<Rightarrow> deploy_loop G frames (i + 1) deployedAt reported called fs)
      else
        (case deployedAt (Frame_To f) of
           Some end_at \<Rightarrow>
             if IsCall f \<and> i \<ge> end_at \<and> \<not> reported (Frame_To f)
             then deploy_loop G frames (i + 1) deployedAt (reported(Frame_To f := True))
                    (called @ [Address_Hex G (Frame_To f)]) fs
             else deploy_loop G frames (i + 1) deployedAt reported called fs
         | None \<Rightarrow> deploy_loop G frames (i + 1) deployedAt reported called fs))"

definition DeployAndCall_Evaluate :: "geth \<Rightarrow> Analysis \<Rightarrow> Finding list option" where
  "DeployAndCall_Evaluate G a =
     do {
       called \<leftarrow> deploy_loop G (Analysis_Frames a) 0 Map.empty (\<lambda>_. False) [] (Analysis_Frames a);
       if length called = 0 then Some []
       else Some (one_finding ''deploy-and-call'' WeightMedium
         (''contract deployed and called in the same transaction: '' @ join '', '' called))
     }"

definition NewDeployAndCall :: "geth \<Rightarrow> 's Rule" where
  "NewDeployAndCall G =
     \<lparr>Rule_Name = ''deploy-and-call'', Rule_Evaluate = (\<lambda>a. or_panic (DeployAndCall_Evaluate G a))\<rparr>"

subsection \<open>The contract of a rule\<close>

text \<open>
  What the risk engine relies on: while the invariant of the state holds, a rule that does not fail
  reports the findings its specification gives, and does not panic. A weighted rule reports at most
  one finding, not a hard block, with a fixed weight.
\<close>

locale rule =
  fixes r :: "'s Rule"
    and inv :: "'s \<Rightarrow> bool"
    and report :: "Analysis \<Rightarrow> Finding list"
  assumes evaluate_safe: "safe inv (Rule_Evaluate r a) (\<lambda>fs. fs = report a)"
    and report_named: "f \<in> set (report a) \<Longrightarrow> Finding_Rule f = Rule_Name r"

locale weighted_rule = rule r inv report
  for r :: "'s Rule" and inv :: "'s \<Rightarrow> bool" and report :: "Analysis \<Rightarrow> Finding list" +
  fixes weight :: int
  assumes report_shape:
    "report a = [] \<or> (\<exists>f. report a = [f] \<and> \<not> Finding_HardBlock f \<and> Finding_Weight f = weight)"
    and weight_nonneg: "0 \<le> weight"
begin

lemma report_no_hard_block: "\<not> (\<exists>f \<in> set (report a). Finding_HardBlock f)"
  using report_shape [of a] by auto

lemma report_weight: "(\<Sum>f \<leftarrow> report a. Finding_Weight f) = (if report a = [] then 0 else weight)"
  using report_shape [of a] by auto

end

lemma one_finding_shape:
  "one_finding n w t = [f] \<longleftrightarrow> f = \<lparr>Finding_Rule = n, Finding_HardBlock = False, Finding_Weight = w, Finding_Reason = t\<rparr>"
  "one_finding n w t \<noteq> []" "f \<in> set (one_finding n w t) \<Longrightarrow> Finding_Rule f = n"
  by (auto simp: one_finding_def)

subsection \<open>The sanctions rule\<close>

locale sanctions_client = lookup_service checker inv sanctioned
  for checker :: "'s Checker" and inv :: "'s \<Rightarrow> bool" and sanctioned :: "address \<Rightarrow> bool" +
  fixes G :: geth
begin

lemma loop_safe:
  "safe inv (sanctioned_loop G checker findings addrs)
     (\<lambda>fs. fs = findings @ map (sanctioned_finding G) (filter sanctioned addrs))"
proof (induction addrs arbitrary: findings)
  case Nil
  then show ?case by (simp add: safe_ret)
next
  case (Cons addr addrs)
  have "safe inv (sanctioned_loop G checker
        (if sanctioned addr then findings @ [sanctioned_finding G addr] else findings) addrs)
      (\<lambda>fs. fs = findings @ map (sanctioned_finding G) (filter sanctioned (addr # addrs)))"
    by (rule safe_weaken [OF Cons.IH]) simp
  then show ?case unfolding sanctioned_loop.simps by (rule get_bind_wrapped)
qed

end

sublocale sanctions_client \<subseteq> hard: rule "NewSanctioned G checker" inv
  "\<lambda>a. map (sanctioned_finding G) (filter sanctioned (Analysis_Addresses a))"
proof unfold_locales
  fix a
  show "safe inv (Rule_Evaluate (NewSanctioned G checker) a)
      (\<lambda>fs. fs = map (sanctioned_finding G) (filter sanctioned (Analysis_Addresses a)))"
    using loop_safe [of "[]" "Analysis_Addresses a"] by (simp add: NewSanctioned_def)
next
  fix f a
  assume "f \<in> set (map (sanctioned_finding G) (filter sanctioned (Analysis_Addresses a)))"
  then show "Finding_Rule f = Rule_Name (NewSanctioned G checker)"
    by (auto simp: sanctioned_finding_def NewSanctioned_def)
qed

context sanctions_client
begin

lemmas sanctioned_rule = hard.rule_axioms

end

subsection \<open>The rules without lookups\<close>

lemma privilege_loop_eq:
  "privilege_loop G a changes pcs =
     changes @ map (describePrivilegeChange G)
       (filter (\<lambda>pc. PrivilegeChange_Contract pc \<notin> set (Analysis_Created a)) pcs)"
  by (induction pcs arbitrary: changes) (auto simp: CreatedInTx_def)

text \<open>One finding that lists texts, or none when there is nothing to list.\<close>

definition listed :: "string \<Rightarrow> int \<Rightarrow> string \<Rightarrow> string list \<Rightarrow> Finding list" where
  "listed name weight intro parts =
     (if parts = [] then [] else one_finding name weight (intro @ join '', '' parts))"

lemma listed_Nil [simp]: "listed n w i ts = [] \<longleftrightarrow> ts = []"
  by (simp add: listed_def one_finding_shape)

text \<open>The privilege changes on contracts that the transaction did not deploy.\<close>

definition privilege_report :: "geth \<Rightarrow> Analysis \<Rightarrow> Finding list" where
  "privilege_report G a =
     listed ''privilege-change'' 40 ''privilege change: ''
       (map (describePrivilegeChange G)
          (filter (\<lambda>pc. PrivilegeChange_Contract pc \<notin> set (Analysis_Created a)) (Analysis_Privileged a)))"

lemma PrivilegeChange_Evaluate_eq: "PrivilegeChange_Evaluate G a = privilege_report G a"
  by (simp add: PrivilegeChange_Evaluate_def privilege_loop_eq privilege_report_def listed_def WeightHigh_def Let_def)

interpretation privilege: weighted_rule "NewPrivilegeChange G" P "privilege_report G" 40
  for G P
  by unfold_locales
    (auto simp: NewPrivilegeChange_def PrivilegeChange_Evaluate_eq safe_ret privilege_report_def
      listed_def one_finding_def split: if_splits)

subsection \<open>Deploy and call\<close>

text \<open>The frame at \<open>i\<close> is the first one that creates \<open>x\<close>.\<close>

definition first_create :: "Frame list \<Rightarrow> nat \<Rightarrow> address \<Rightarrow> bool" where
  "first_create frames i x \<longleftrightarrow>
     i < length frames \<and> IsCreate (frames ! i) \<and> Frame_To (frames ! i) = x \<and>
     (\<forall>k < i. \<not> (IsCreate (frames ! k) \<and> Frame_To (frames ! k) = x))"

text \<open>
  At \<open>j\<close>, the constructor that first created \<open>x\<close> has returned: between it and \<open>j\<close> the walk came
  back to its depth or above.
\<close>

definition constructed :: "Frame list \<Rightarrow> nat \<Rightarrow> address \<Rightarrow> bool" where
  "constructed frames j x \<longleftrightarrow>
     (\<exists>i. first_create frames i x \<and>
        (\<exists>k. i < k \<and> k \<le> j \<and> Frame_Depth (frames ! k) \<le> Frame_Depth (frames ! i)))"

text \<open>The contracts called after their construction in the first \<open>n\<close> frames, in order, each once.\<close>

definition called_upto :: "Frame list \<Rightarrow> nat \<Rightarrow> address list" where
  "called_upto frames n =
     add_new [] (map (\<lambda>j. Frame_To (frames ! j))
       (filter (\<lambda>j. IsCall (frames ! j) \<and> constructed frames j (Frame_To (frames ! j))) [0..<n]))"

definition deployed_ok :: "Frame list \<Rightarrow> nat \<Rightarrow> (address \<rightharpoonup> nat) \<Rightarrow> bool" where
  "deployed_ok frames n deployedAt \<longleftrightarrow>
     (\<forall>x e. deployedAt x = Some e \<longleftrightarrow> (\<exists>i < n. first_create frames i x \<and> SubtreeEnd frames i = Some e))"

lemma first_create_unique: "first_create frames i x \<Longrightarrow> first_create frames j x \<Longrightarrow> i = j"
  unfolding first_create_def by (metis linorder_neqE_nat)

lemma deployed_ok_None:
  assumes "deployed_ok frames n deployedAt"
  shows "deployedAt x = None \<longleftrightarrow> (\<forall>i < n. \<not> first_create frames i x)"
  using assms SubtreeEnd_le by (metis deployed_ok_def first_create_def not_Some_eq)

lemma first_create_exists:
  assumes "n \<le> length frames" and "\<forall>i < n. \<not> first_create frames i x" and "k < n"
  shows "\<not> (IsCreate (frames ! k) \<and> Frame_To (frames ! k) = x)"
  using assms(3)
proof (induction k rule: less_induct)
  case (less k)
  then show ?case using assms(1,2) unfolding first_create_def by (metis order_less_le_trans order_less_trans)
qed

lemma first_create_new:
  assumes ok: "deployed_ok frames n deployedAt" and n: "n < length frames"
  shows "first_create frames n x \<longleftrightarrow>
      IsCreate (frames ! n) \<and> Frame_To (frames ! n) = x \<and> deployedAt x = None"
proof
  assume fc: "first_create frames n x"
  then have "\<forall>i < n. \<not> first_create frames i x" using first_create_unique by blast
  with fc show "IsCreate (frames ! n) \<and> Frame_To (frames ! n) = x \<and> deployedAt x = None"
    by (simp add: deployed_ok_None [OF ok] first_create_def)
next
  assume *: "IsCreate (frames ! n) \<and> Frame_To (frames ! n) = x \<and> deployedAt x = None"
  then have "\<forall>i < n. \<not> first_create frames i x" by (simp add: deployed_ok_None [OF ok])
  with * n show "first_create frames n x"
    using first_create_exists [of n frames x] unfolding first_create_def [of frames n] by simp
qed

lemma deployed_ok_step:
  assumes ok: "deployed_ok frames n deployedAt" and n: "n < length frames"
    and e: "SubtreeEnd frames n = Some e"
  shows "deployed_ok frames (Suc n)
    (if IsCreate (frames ! n) \<and> deployedAt (Frame_To (frames ! n)) = None
     then deployedAt(Frame_To (frames ! n) \<mapsto> e) else deployedAt)"
proof -
  have "(\<exists>i < Suc n. first_create frames i x \<and> SubtreeEnd frames i = Some e') \<longleftrightarrow>
      deployedAt x = Some e' \<or> first_create frames n x \<and> e' = e" for x e'
    using ok e unfolding deployed_ok_def by (metis less_Suc_eq option.inject)
  then show ?thesis
    unfolding deployed_ok_def first_create_new [OF ok n] by auto
qed

text \<open>The test \<open>created && i >= end\<close> of the rule.\<close>

lemma constructed_iff:
  assumes ok: "deployed_ok frames n deployedAt" and n: "n < length frames"
  shows "constructed frames n x \<longleftrightarrow> (\<exists>e. deployedAt x = Some e \<and> e \<le> n)"
proof -
  have *: "(\<exists>k. i < k \<and> k \<le> n \<and> Frame_Depth (frames ! k) \<le> Frame_Depth (frames ! i)) \<longleftrightarrow>
      i < n \<and> (\<exists>e. SubtreeEnd frames i = Some e \<and> e \<le> n)" if "first_create frames i x" for i
  proof -
    from that have "i < length frames" by (simp add: first_create_def)
    then obtain e where "SubtreeEnd frames i = Some e"
      "e \<le> n \<longleftrightarrow> (\<exists>k. i < k \<and> k \<le> n \<and> Frame_Depth (frames ! k) \<le> Frame_Depth (frames ! i))"
      using SubtreeEnd_le [of i frames] n by metis
    then show ?thesis by auto
  qed
  have "constructed frames n x \<longleftrightarrow>
      (\<exists>i. first_create frames i x \<and> i < n \<and> (\<exists>e. SubtreeEnd frames i = Some e \<and> e \<le> n))"
    unfolding constructed_def using * by blast
  also have "\<dots> \<longleftrightarrow> (\<exists>e. deployedAt x = Some e \<and> e \<le> n)"
    using ok unfolding deployed_ok_def by blast
  finally show ?thesis .
qed

lemma called_upto_Suc:
  "called_upto frames (Suc n) =
     (let x = Frame_To (frames ! n)
      in if IsCall (frames ! n) \<and> constructed frames n x \<and> x \<notin> set (called_upto frames n)
         then called_upto frames n @ [x] else called_upto frames n)"
  by (simp add: called_upto_def add_new_append add_new_simps Let_def)

lemma deploy_loop_spec:
  assumes "deployed_ok frames n deployedAt" and "n \<le> length frames"
  shows "deploy_loop G frames n deployedAt (\<lambda>x. x \<in> set (called_upto frames n))
      (map (Address_Hex G) (called_upto frames n)) (drop n frames) =
    Some (map (Address_Hex G) (called_upto frames (length frames)))"
  using assms
proof (induction "length frames - n" arbitrary: n deployedAt)
  case 0
  then show ?case by simp
next
  case (Suc m)
  then have n: "n < length frames" by simp
  obtain e where e: "SubtreeEnd frames n = Some e" using SubtreeEnd_le [OF n] by blast
  define f where "f = frames ! n"
  define d' where "d' = (if IsCreate f \<and> deployedAt (Frame_To f) = None
     then deployedAt(Frame_To f \<mapsto> e) else deployedAt)"
  have drop: "drop n frames = f # drop (Suc n) frames"
    using n by (simp add: f_def Cons_nth_drop_Suc)
  have upd: "(\<lambda>x. x \<in> set xs)(y := True) = (\<lambda>x. x \<in> set (xs @ [y]))" for xs and y :: address
    by (auto simp: fun_eq_iff)
  have "deploy_loop G frames n deployedAt (\<lambda>x. x \<in> set (called_upto frames n))
      (map (Address_Hex G) (called_upto frames n)) (drop n frames) =
    deploy_loop G frames (Suc n) d' (\<lambda>x. x \<in> set (called_upto frames (Suc n)))
      (map (Address_Hex G) (called_upto frames (Suc n))) (drop (Suc n) frames)"
    using IsCreate_not_IsCall [of f] e
    by (auto simp: drop d'_def called_upto_Suc constructed_iff [OF Suc.prems(1) n] Let_def upd
        simp flip: f_def split: option.split)
  also have "\<dots> = Some (map (Address_Hex G) (called_upto frames (length frames)))"
    using Suc.hyps(2) n deployed_ok_step [OF Suc.prems(1) n e, folded f_def, folded d'_def]
    by (intro Suc.hyps(1)) simp_all
  finally show ?case .
qed

definition deploy_report :: "geth \<Rightarrow> Analysis \<Rightarrow> Finding list" where
  "deploy_report G a =
     listed ''deploy-and-call'' 20 ''contract deployed and called in the same transaction: ''
       (map (Address_Hex G) (called_upto (Analysis_Frames a) (length (Analysis_Frames a))))"

lemma DeployAndCall_Evaluate_eq: "DeployAndCall_Evaluate G a = Some (deploy_report G a)"
proof -
  have "called_upto frames 0 = []" "deployed_ok frames 0 Map.empty" for frames
    by (simp_all add: called_upto_def add_new_simps deployed_ok_def)
  with deploy_loop_spec [of "Analysis_Frames a" 0 Map.empty G] show ?thesis
    by (simp add: DeployAndCall_Evaluate_def deploy_report_def listed_def WeightMedium_def)
qed

interpretation deploy: weighted_rule "NewDeployAndCall G" P "deploy_report G" 20
  for G P
  by unfold_locales
    (auto simp: NewDeployAndCall_def DeployAndCall_Evaluate_eq or_panic_Some safe_ret
      deploy_report_def listed_def one_finding_def split: if_splits)

subsection \<open>What the rules report\<close>

text \<open>
  C14. The sanctions rule, over any checker that answers truthfully or fails: it reports a hard
  block for exactly the sanctioned addresses of the transaction, in order; when one lookup fails it
  reports an error and no findings.
\<close>

theorem Sanctioned_correct:
  assumes "lookup_service checker P sanctioned" and "P s"
    and "Rule_Evaluate (NewSanctioned G checker) a s = (r, t)"
  shows "P t \<and>
    (r = Ok (map (sanctioned_finding G) (filter sanctioned (Analysis_Addresses a))) \<or> (\<exists>e. r = Err e))"
proof -
  note s = safeD [OF sanctions_client.loop_safe [OF sanctions_client.intro, OF assms(1)] assms(2)]
  from assms(3) have "sanctioned_loop G checker [] (Analysis_Addresses a) s = (r, t)"
    by (simp add: NewSanctioned_def)
  then show ?thesis
    using s [of G "[]" "Analysis_Addresses a"] by (cases r) auto
qed

theorem Sanctioned_correct_witness:
  "\<exists>r t. Rule_Evaluate (NewSanctioned geth_model (ListChecker_IsSanctioned (NewListChecker [2, 5])))
       (FromTx example_tx) example_world = (r, t) \<and>
     (r = Ok [sanctioned_finding geth_model 2] \<or> (\<exists>e. r = Err e))"
proof -
  let ?c = "ListChecker_IsSanctioned (NewListChecker [2, 5]) :: unit world Checker"
  obtain r t where rt: "Rule_Evaluate (NewSanctioned geth_model ?c) (FromTx example_tx) example_world = (r, t)"
    by (cases "Rule_Evaluate (NewSanctioned geth_model ?c) (FromTx example_tx) example_world")
  have "lookup_service ?c (\<lambda>_. True) (\<lambda>a. a \<in> {2, 5})"
    using list_service.lookup_service_axioms [of "NewListChecker [2, 5]"] by simp
  from Sanctioned_correct [OF this _ rt] rt show ?thesis
    by (simp add: FromTx_def example_tx_def)
qed

text \<open>
  C22. The privilege rule lists, for a simulated transaction, exactly the ownership, upgrade, admin
  and role events that a frame which is not rolled back logs for a contract that the transaction did
  not deploy. It reports them as one finding with the high weight 40, which is never a hard block,
  and reports nothing when there are none.
\<close>

theorem PrivilegeChange_correct:
  assumes "Build G tx (Some f) = Some a"
  shows "\<exists>pcs. PrivilegeChange_Evaluate G a =
      (if pcs = [] then []
       else [\<lparr>Finding_Rule = ''privilege-change'', Finding_HardBlock = False, Finding_Weight = 40,
         Finding_Reason = ''privilege change: '' @ join '', '' (map (describePrivilegeChange G) pcs)\<rparr>]) \<and>
    set pcs = {pc. \<exists>d c l. alive f d c \<and> l \<in> set (Call_Logs c) \<and>
      DecodePrivilegeChange G (Log_Address l) (Log_Topics l) (Log_Data l) = Some (Some pc) \<and>
      \<not> (\<exists>d' c'. alive f d' c' \<and> PrivilegeChange_Contract pc \<in> set (created_by c'))}"
proof (intro exI conjI)
  let ?pcs = "filter (\<lambda>pc. PrivilegeChange_Contract pc \<notin> set (Analysis_Created a)) (Analysis_Privileged a)"
  show "PrivilegeChange_Evaluate G a =
      (if ?pcs = [] then []
       else [\<lparr>Finding_Rule = ''privilege-change'', Finding_HardBlock = False, Finding_Weight = 40,
         Finding_Reason = ''privilege change: '' @ join '', '' (map (describePrivilegeChange G) ?pcs)\<rparr>])"
    by (simp add: PrivilegeChange_Evaluate_eq privilege_report_def listed_def one_finding_def)
  have created: "x \<in> set (Analysis_Created a) \<longleftrightarrow> (\<exists>d c. alive f d c \<and> x \<in> set (created_by c))" for x
    by (simp add: Build_fields(5) [OF assms] created_of_def alive_live [symmetric])
  have privileged: "pc \<in> set (Analysis_Privileged a) \<longleftrightarrow>
      (\<exists>d c. alive f d c \<and> (\<exists>l \<in> set (Call_Logs c).
         DecodePrivilegeChange G (Log_Address l) (Log_Topics l) (Log_Data l) = Some (Some pc)))" for pc
    by (simp add: Build_fields(10) [OF assms] decoded_mem logs_of_def alive_live [symmetric])
  show "set ?pcs = {pc. \<exists>d c l. alive f d c \<and> l \<in> set (Call_Logs c) \<and>
      DecodePrivilegeChange G (Log_Address l) (Log_Topics l) (Log_Data l) = Some (Some pc) \<and>
      \<not> (\<exists>d' c'. alive f d' c' \<and> PrivilegeChange_Contract pc \<in> set (created_by c'))}"
    unfolding set_filter privileged created by blast
qed

text \<open>Contract 9, which the transaction did not deploy, is upgraded to 7, which it did.\<close>

definition upgrade_log :: "geth \<Rightarrow> address \<Rightarrow> address \<Rightarrow> Log" where
  "upgrade_log G proxy impl =
     \<lparr>Log_Address = proxy, Log_Topics = [Keccak256Hash G (str_bytes ''Upgraded(address)''), address_word impl],
      Log_Data = []\<rparr>"

definition upgrade_trace :: CallFrame where
  "upgrade_trace =
     plain_call ''CALL'' 1 9 0 '''' [upgrade_log geth_model 9 7]
       [plain_call ''CREATE'' 9 7 0 '''' [] []]"

lemma upgrade_trace_live:
  "live 0 upgrade_trace =
     [(0, upgrade_trace), (1, plain_call ''CREATE'' 9 7 0 '''' [] [])]"
  by (simp add: upgrade_trace_def plain_call_def)

theorem PrivilegeChange_correct_witness:
  "\<exists>a t. Build geth_model example_tx (Some upgrade_trace) = Some a \<and>
     PrivilegeChange_Evaluate geth_model a =
       [\<lparr>Finding_Rule = ''privilege-change'', Finding_HardBlock = False, Finding_Weight = 40,
         Finding_Reason = ''privilege change: '' @ t\<rparr>]"
proof -
  obtain a where a: "Build geth_model example_tx (Some upgrade_trace) = Some a"
    using Build_defined by blast
  let ?l = "upgrade_log geth_model 9 7"
  obtain pc where pc:
      "DecodePrivilegeChange geth_model (Log_Address ?l) (Log_Topics ?l) (Log_Data ?l) = Some (Some pc)"
      "PrivilegeChange_Contract pc = 9"
    using DecodePrivilegeChange_indexed [OF geth_model_bytes_ok
        privilegeEvents_simps(2) [OF geth_model_topics_ok], of "[address_word 7]" 9]
    by (simp add: upgrade_log_def build_defs)
  have "alive upgrade_trace 0 upgrade_trace"
    by (simp add: live_iff_alive [symmetric] upgrade_trace_live)
  moreover have "?l \<in> set (Call_Logs upgrade_trace)"
    by (simp add: upgrade_trace_def plain_call_def)
  moreover have "\<not> (\<exists>d' c'. alive upgrade_trace d' c' \<and> PrivilegeChange_Contract pc \<in> set (created_by c'))"
    by (auto simp: live_iff_alive [symmetric] upgrade_trace_live created_by_def plain_call_def pc(2))
      (simp_all add: upgrade_trace_def plain_call_def)
  moreover obtain pcs where pcs: "PrivilegeChange_Evaluate geth_model a =
      (if pcs = [] then []
       else [\<lparr>Finding_Rule = ''privilege-change'', Finding_HardBlock = False, Finding_Weight = 40,
         Finding_Reason = ''privilege change: '' @ join '', '' (map (describePrivilegeChange geth_model) pcs)\<rparr>])"
    "set pcs = {pc. \<exists>d c l. alive upgrade_trace d c \<and> l \<in> set (Call_Logs c) \<and>
      DecodePrivilegeChange geth_model (Log_Address l) (Log_Topics l) (Log_Data l) = Some (Some pc) \<and>
      \<not> (\<exists>d' c'. alive upgrade_trace d' c' \<and> PrivilegeChange_Contract pc \<in> set (created_by c'))}"
    using PrivilegeChange_correct [OF a] by blast
  ultimately have "pc \<in> set pcs" using pc(1) by blast
  then have "pcs \<noteq> []" by auto
  with a pcs(1) show ?thesis by auto
qed

subsection \<open>Deploy and call on the call tree\<close>

text \<open>
  What a frame of the trace targets; a frame without a target counts as one of the zero address, as
  in the flattened frames.
\<close>

definition call_target :: "CallFrame \<Rightarrow> address" where
  "call_target c = (case Call_To c of Some t \<Rightarrow> t | None \<Rightarrow> 0)"

definition creates :: "CallFrame \<Rightarrow> address \<Rightarrow> bool" where
  "creates c x \<longleftrightarrow> (Call_Type c = ''CREATE'' \<or> Call_Type c = ''CREATE2'') \<and> call_target c = x"

definition calls_into :: "CallFrame \<Rightarrow> address \<Rightarrow> bool" where
  "calls_into c x \<longleftrightarrow>
     (Call_Type c = ''CALL'' \<or> Call_Type c = ''STATICCALL'' \<or> Call_Type c = ''DELEGATECALL'' \<or>
      Call_Type c = ''CALLCODE'') \<and> call_target c = x"

text \<open>
  In the execution order of the frames that are not rolled back, \<open>c\<close> is the first one that creates
  \<open>x\<close>, the frames below it are the calls made during construction, and a frame after them calls \<open>x\<close>.
\<close>

definition called_after_construction :: "CallFrame \<Rightarrow> address \<Rightarrow> bool" where
  "called_after_construction f x \<longleftrightarrow>
     (\<exists>pre d c post. live 0 f = pre @ (d, c) # live_calls (Suc d) (Call_Calls c) @ post \<and>
        creates c x \<and> (\<forall>e \<in> set pre. \<not> creates (snd e) x) \<and> (\<exists>e \<in> set post. calls_into (snd e) x))"

lemma frames_of_nth:
  "i < length es \<Longrightarrow> frames_of es ! i = frame_of (fst (es ! i)) (snd (es ! i))" "length (frames_of es) = length es"
  by (simp_all add: frames_of_def)

lemma frame_of_kinds:
  "IsCreate (frame_of d c) \<and> Frame_To (frame_of d c) = x \<longleftrightarrow> creates c x"
  "IsCall (frame_of d c) \<and> Frame_To (frame_of d c) = x \<longleftrightarrow> calls_into c x"
  by (simp_all add: IsCreate_def IsCall_def frame_of_def creates_def calls_into_def call_target_def)

lemma first_create_live:
  assumes "i < length es"
  shows "first_create (frames_of es) i x \<longleftrightarrow>
    creates (snd (es ! i)) x \<and> (\<forall>e \<in> set (take i es). \<not> creates (snd e) x)"
proof -
  have kinds: "IsCreate (frames_of es ! k) \<and> Frame_To (frames_of es ! k) = x \<longleftrightarrow> creates (snd (es ! k)) x"
    if "k < length es" for k
    using that by (simp add: frames_of_nth frame_of_kinds)
  have "(\<forall>e \<in> set (take i es). \<not> creates (snd e) x) \<longleftrightarrow> (\<forall>k < i. \<not> creates (snd (es ! k)) x)"
    unfolding nth_image [OF less_imp_le [OF assms], symmetric] by auto
  also have "\<dots> \<longleftrightarrow> (\<forall>k < i. \<not> (IsCreate (frames_of es ! k) \<and> Frame_To (frames_of es ! k) = x))"
    using kinds assms by (intro all_cong1 imp_cong refl) simp
  finally have "(\<forall>e \<in> set (take i es). \<not> creates (snd e) x) \<longleftrightarrow>
      (\<forall>k < i. \<not> (IsCreate (frames_of es ! k) \<and> Frame_To (frames_of es ! k) = x))" .
  with kinds [OF assms] assms show ?thesis
    unfolding first_create_def frames_of_nth(2) by blast
qed

lemma constructed_live:
  assumes "j < length (live 0 f)"
  shows "constructed (frames_of (live 0 f)) j x \<longleftrightarrow>
    (\<exists>i d c. first_create (frames_of (live 0 f)) i x \<and> live 0 f ! i = (d, c) \<and>
       Suc i + length (live_calls (Suc d) (Call_Calls c)) \<le> j)"
proof -
  let ?fs = "frames_of (live 0 f)"
  have eq: "(\<exists>k. i < k \<and> k \<le> j \<and> Frame_Depth (?fs ! k) \<le> Frame_Depth (?fs ! i)) \<longleftrightarrow>
    Suc i + length (live_calls (Suc d) (Call_Calls c)) \<le> j"
    if i: "first_create ?fs i x" "live 0 f ! i = (d, c)" for i d c
  proof -
    from i(1) have len: "i < length (live 0 f)" by (simp add: first_create_def frames_of_nth(2))
    then obtain e where e: "SubtreeEnd ?fs i = Some e" "\<And>j. j < length ?fs \<Longrightarrow>
        e \<le> j \<longleftrightarrow> (\<exists>k. i < k \<and> k \<le> j \<and> Frame_Depth (?fs ! k) \<le> Frame_Depth (?fs ! i))"
      by (rule SubtreeEnd_le [of i ?fs, unfolded frames_of_nth(2)]) (simp add: frames_of_nth(2))
    have "e = Suc i + length (live_calls (Suc d) (Call_Calls c))"
      using e(1) SubtreeEnd_live(1) [OF len i(2)] by simp
    with e(2) [of j] assms show ?thesis by (simp add: frames_of_nth(2))
  qed
  show ?thesis
  proof
    assume "constructed ?fs j x"
    then obtain i where i: "first_create ?fs i x"
      "\<exists>k. i < k \<and> k \<le> j \<and> Frame_Depth (?fs ! k) \<le> Frame_Depth (?fs ! i)"
      unfolding constructed_def by blast
    obtain d c where "live 0 f ! i = (d, c)" by (cases "live 0 f ! i")
    with eq [OF i(1) this] i show "\<exists>i d c. first_create ?fs i x \<and> live 0 f ! i = (d, c) \<and>
       Suc i + length (live_calls (Suc d) (Call_Calls c)) \<le> j" by blast
  next
    assume "\<exists>i d c. first_create ?fs i x \<and> live 0 f ! i = (d, c) \<and>
       Suc i + length (live_calls (Suc d) (Call_Calls c)) \<le> j"
    then show "constructed ?fs j x" unfolding constructed_def using eq by blast
  qed
qed

lemma called_after_construction_iff:
  "called_after_construction f x \<longleftrightarrow>
     (\<exists>j < length (live 0 f). calls_into (snd (live 0 f ! j)) x \<and> constructed (frames_of (live 0 f)) j x)"
proof
  assume "called_after_construction f x"
  then obtain pre d c post where es: "live 0 f = pre @ (d, c) # live_calls (Suc d) (Call_Calls c) @ post"
    and c: "creates c x" "\<forall>e \<in> set pre. \<not> creates (snd e) x" and post: "\<exists>e \<in> set post. calls_into (snd e) x"
    unfolding called_after_construction_def by blast
  from post obtain m where m: "m < length post" "calls_into (snd (post ! m)) x"
    by (auto simp: in_set_conv_nth)
  let ?j = "Suc (length pre) + length (live_calls (Suc d) (Call_Calls c)) + m"
  have at: "live 0 f ! length pre = (d, c)" "take (length pre) (live 0 f) = pre"
    "length pre < length (live 0 f)" "?j < length (live 0 f)" "live 0 f ! ?j = post ! m"
    using m(1) by (simp_all add: es nth_append)
  have "first_create (frames_of (live 0 f)) (length pre) x"
    by (simp add: first_create_live [OF at(3)] at c)
  then have "constructed (frames_of (live 0 f)) ?j x"
    unfolding constructed_live [OF at(4)] using at(1) by (metis le_add1)
  with at(4,5) m(2) show "\<exists>j < length (live 0 f). calls_into (snd (live 0 f ! j)) x \<and>
      constructed (frames_of (live 0 f)) j x" by metis
next
  assume "\<exists>j < length (live 0 f). calls_into (snd (live 0 f ! j)) x \<and>
      constructed (frames_of (live 0 f)) j x"
  then obtain j where j: "j < length (live 0 f)" "calls_into (snd (live 0 f ! j)) x"
    "constructed (frames_of (live 0 f)) j x" by blast
  then obtain i d c where i: "first_create (frames_of (live 0 f)) i x" "live 0 f ! i = (d, c)"
    "Suc i + length (live_calls (Suc d) (Call_Calls c)) \<le> j"
    unfolding constructed_live [OF j(1)] by blast
  let ?sub = "live_calls (Suc d) (Call_Calls c)"
  let ?post = "drop (length ?sub) (drop (Suc i) (live 0 f))"
  from i(1) have len: "i < length (live 0 f)" by (simp add: first_create_def frames_of_nth(2))
  with i(1) have c: "creates c x" "\<forall>e \<in> set (take i (live 0 f)). \<not> creates (snd e) x"
    by (simp_all add: first_create_live i(2))
  have "live 0 f = take i (live 0 f) @ (d, c) # drop (Suc i) (live 0 f)"
    using id_take_nth_drop [OF len] by (simp add: i(2))
  moreover have "drop (Suc i) (live 0 f) = ?sub @ ?post"
    using SubtreeEnd_live(2) [OF len i(2)] by (metis append_take_drop_id)
  ultimately have "live 0 f = take i (live 0 f) @ (d, c) # ?sub @ ?post" by simp
  moreover have "live 0 f ! j \<in> set ?post"
    unfolding in_set_conv_nth
    using i(3) j(1) by (intro exI [of _ "j - (Suc i + length ?sub)"]) (auto simp: algebra_simps)
  ultimately show "called_after_construction f x"
    unfolding called_after_construction_def using c j(2) by blast
qed

text \<open>
  C21. The deploy-and-call rule reports exactly the contracts that some call reaches after the
  constructor that first created them has returned, each once; calls made below the constructor's
  own frame do not count, nor do frames that are rolled back. It never panics; the finding is one,
  with the medium weight 20.
\<close>

theorem DeployAndCall_correct:
  assumes "Build G tx (Some f) = Some a"
  shows "\<exists>called. DeployAndCall_Evaluate G a =
      Some (if called = [] then []
        else [\<lparr>Finding_Rule = ''deploy-and-call'', Finding_HardBlock = False, Finding_Weight = 20,
          Finding_Reason = ''contract deployed and called in the same transaction: '' @
            join '', '' (map (Address_Hex G) called)\<rparr>]) \<and>
    distinct called \<and> set called = {x. called_after_construction f x}"
proof (intro exI conjI)
  let ?fs = "frames_of (live 0 f)"
  let ?called = "called_upto ?fs (length ?fs)"
  show "DeployAndCall_Evaluate G a =
      Some (if ?called = [] then []
        else [\<lparr>Finding_Rule = ''deploy-and-call'', Finding_HardBlock = False, Finding_Weight = 20,
          Finding_Reason = ''contract deployed and called in the same transaction: '' @
            join '', '' (map (Address_Hex G) ?called)\<rparr>])"
    by (simp add: DeployAndCall_Evaluate_eq deploy_report_def listed_def one_finding_def Build_fields(4) [OF assms])
  show "distinct ?called" by (simp add: called_upto_def distinct_add_new)
  have "x \<in> set ?called \<longleftrightarrow>
      (\<exists>j < length (live 0 f). (IsCall (?fs ! j) \<and> Frame_To (?fs ! j) = x) \<and> constructed ?fs j x)" for x
    unfolding called_upto_def set_add_new frames_of_nth(2) by auto
  then show "set ?called = {x. called_after_construction f x}"
    unfolding called_after_construction_iff
    by (auto simp: frames_of_nth frame_of_kinds(2) cong: conj_cong)
qed

text \<open>In \<open>example_trace\<close>, contract 7 is called after its constructor, which itself calls 2, returned.\<close>

theorem DeployAndCall_correct_witness:
  "\<exists>a. Build geth_model example_tx (Some example_trace) = Some a \<and>
     (\<exists>t. DeployAndCall_Evaluate geth_model a =
        Some [\<lparr>Finding_Rule = ''deploy-and-call'', Finding_HardBlock = False, Finding_Weight = 20,
          Finding_Reason = t\<rparr>])"
proof -
  obtain a where a: "Build geth_model example_tx (Some example_trace) = Some a"
    using Build_defined by blast
  let ?c = "plain_call ''CREATE'' 2 7 0 '''' [] [plain_call ''CALL'' 7 2 0 '''' [] []]"
  have "live 0 example_trace = [(0, example_trace)] @ (1, ?c) #
      live_calls (Suc 1) (Call_Calls ?c) @ [(1, plain_call ''CALL'' 2 7 0 '''' [] [])]"
    by (simp add: example_trace_live) (simp add: plain_call_def)
  moreover have "creates ?c 7" "\<not> creates example_trace 7"
    "calls_into (plain_call ''CALL'' 2 7 0 '''' [] []) 7"
    by (simp_all add: creates_def calls_into_def call_target_def example_trace_def plain_call_def)
  ultimately have "called_after_construction example_trace 7"
    unfolding called_after_construction_def by fastforce
  moreover obtain called where called: "DeployAndCall_Evaluate geth_model a =
      Some (if called = [] then []
        else [\<lparr>Finding_Rule = ''deploy-and-call'', Finding_HardBlock = False, Finding_Weight = 20,
          Finding_Reason = ''contract deployed and called in the same transaction: '' @
            join '', '' (map (Address_Hex geth_model) called)\<rparr>])"
    "set called = {x. called_after_construction example_trace x}"
    using DeployAndCall_correct [OF a] by blast
  ultimately have "called \<noteq> []" by auto
  with a called(1) show ?thesis by auto
qed

end
