(* ===== verification/RulesFresh.thy ===== *)
theory RulesFresh
  imports Rules
begin

text \<open>
  Package \<open>internal/rules\<close>: the rules that ask for the age of a contract, \<open>delegatecall.go\<close>,
  \<open>approval.go\<close> (with \<open>isFresh\<close>) and \<open>nftdrainer.go\<close>. Each remembers its answers within one
  transaction; the lemmas show that this changes nothing of what it reports.
\<close>

type_synonym 's FreshnessChecker = "address \<Rightarrow> ('s, bool) io"

type_synonym 's StatusReader = "address \<Rightarrow> ('s, Status) io"

definition isFresh :: "geth \<Rightarrow> 's FreshnessChecker \<Rightarrow> Analysis \<Rightarrow> address \<Rightarrow> ('s, bool) io" where
  "isFresh G fresh a addr =
     (if CreatedInTx a addr then ret True
      else io_bind (on_err (\<lambda>e. Wrapped (''freshness of '' @ Address_Hex G addr @ '': '') e '''') (fresh addr))
        (\<lambda>ok. ret ok))"

subsection \<open>delegatecall.go\<close>

fun delegatecall_loop ::
  "geth \<Rightarrow> 's FreshnessChecker \<Rightarrow> Analysis \<Rightarrow> (address \<Rightarrow> bool) \<Rightarrow> string list \<Rightarrow> Frame list \<Rightarrow> ('s, string list) io" where
  "delegatecall_loop G fresh a checked targets [] = ret targets"
| "delegatecall_loop G fresh a checked targets (f # fs) =
     (if (Frame_Type f \<noteq> ''DELEGATECALL'' \<and> Frame_Type f \<noteq> ''CALLCODE'') \<or> checked (Frame_To f)
      then delegatecall_loop G fresh a checked targets fs
      else io_bind (isFresh G fresh a (Frame_To f))
        (\<lambda>is_fresh. delegatecall_loop G fresh a (checked(Frame_To f := True))
           (if is_fresh then targets @ [Address_Hex G (Frame_To f)] else targets) fs))"

definition DelegatecallToFresh_Evaluate ::
  "geth \<Rightarrow> 's FreshnessChecker \<Rightarrow> Analysis \<Rightarrow> ('s, Finding list) io" where
  "DelegatecallToFresh_Evaluate G fresh a =
     io_bind (delegatecall_loop G fresh a (\<lambda>_. False) [] (Analysis_Frames a))
       (\<lambda>targets. if length targets = 0 then ret []
          else ret (one_finding ''delegatecall-to-fresh-code'' WeightMedium
                 (''delegatecall into recently deployed code: '' @ join '', '' targets)))"

definition NewDelegatecallToFresh :: "geth \<Rightarrow> 's FreshnessChecker \<Rightarrow> 's Rule" where
  "NewDelegatecallToFresh G fresh =
     \<lparr>Rule_Name = ''delegatecall-to-fresh-code'', Rule_Evaluate = DelegatecallToFresh_Evaluate G fresh\<rparr>"

subsection \<open>approval.go\<close>

definition UnlimitedAmount :: int where
  "UnlimitedAmount = push_bit 128 1"

definition approval_text :: "geth \<Rightarrow> Approval \<Rightarrow> string" where
  "approval_text G ap =
     ''token '' @ Address_Hex G (Approval_Token ap) @ '' to '' @ Address_Hex G (Approval_Spender ap)"

fun approval_loop ::
  "geth \<Rightarrow> 's FreshnessChecker \<Rightarrow> Analysis \<Rightarrow> (address \<rightharpoonup> bool) \<Rightarrow> string list \<Rightarrow> Approval list \<Rightarrow> ('s, string list) io" where
  "approval_loop G fresh a checked approvals [] = ret approvals"
| "approval_loop G fresh a checked approvals (ap # aps) =
     (if Approval_Amount ap < UnlimitedAmount then approval_loop G fresh a checked approvals aps
      else
        (case checked (Approval_Spender ap) of
           Some is_fresh \<Rightarrow>
             approval_loop G fresh a checked
               (if is_fresh then approvals @ [approval_text G ap] else approvals) aps
         | None \<Rightarrow>
             io_bind (isFresh G fresh a (Approval_Spender ap))
               (\<lambda>is_fresh. approval_loop G fresh a (checked(Approval_Spender ap \<mapsto> is_fresh))
                  (if is_fresh then approvals @ [approval_text G ap] else approvals) aps)))"

definition UnlimitedApproval_Evaluate ::
  "geth \<Rightarrow> 's FreshnessChecker \<Rightarrow> Analysis \<Rightarrow> ('s, Finding list) io" where
  "UnlimitedApproval_Evaluate G fresh a =
     io_bind (approval_loop G fresh a Map.empty [] (Analysis_Approvals a))
       (\<lambda>approvals. if length approvals = 0 then ret []
          else ret (one_finding ''unlimited-approval-to-fresh-contract'' WeightMedium
                 (''unlimited approval to recently deployed contract: '' @ join '', '' approvals)))"

definition NewUnlimitedApproval :: "geth \<Rightarrow> 's FreshnessChecker \<Rightarrow> 's Rule" where
  "NewUnlimitedApproval G fresh =
     \<lparr>Rule_Name = ''unlimited-approval-to-fresh-contract'',
      Rule_Evaluate = UnlimitedApproval_Evaluate G fresh\<rparr>"

subsection \<open>nftdrainer.go\<close>

definition operatorKind :: "geth \<Rightarrow> 's StatusReader \<Rightarrow> Analysis \<Rightarrow> address \<Rightarrow> ('s, string) io" where
  "operatorKind G status a operator =
     (if CreatedInTx a operator then ret ''recently deployed contract''
      else io_bind (on_err (\<lambda>e. Wrapped (''status of '' @ Address_Hex G operator @ '': '') e '''') (status operator))
        (\<lambda>s. case s of
           NoCode \<Rightarrow> ret ''EOA''
         | Fresh \<Rightarrow> ret ''recently deployed contract''
         | Established \<Rightarrow> ret ''''))"

definition grant_text :: "geth \<Rightarrow> string \<Rightarrow> ApprovalForAll \<Rightarrow> string" where
  "grant_text G k ap =
     ''collection '' @ Address_Hex G (ApprovalForAll_Collection ap) @ '' to '' @ k @ '' '' @
     Address_Hex G (ApprovalForAll_Operator ap)"

fun grant_loop ::
  "geth \<Rightarrow> 's StatusReader \<Rightarrow> Analysis \<Rightarrow> (address \<rightharpoonup> string) \<Rightarrow> string list \<Rightarrow> ApprovalForAll list \<Rightarrow> ('s, string list) io" where
  "grant_loop G status a kind grants [] = ret grants"
| "grant_loop G status a kind grants (ap # aps) =
     (if \<not> ApprovalForAll_Approved ap then grant_loop G status a kind grants aps
      else
        (case kind (ApprovalForAll_Operator ap) of
           Some k \<Rightarrow>
             grant_loop G status a kind (if k \<noteq> '''' then grants @ [grant_text G k ap] else grants) aps
         | None \<Rightarrow>
             io_bind (operatorKind G status a (ApprovalForAll_Operator ap))
               (\<lambda>k. grant_loop G status a (kind(ApprovalForAll_Operator ap \<mapsto> k))
                  (if k \<noteq> '''' then grants @ [grant_text G k ap] else grants) aps)))"

definition NFTDrainer_Evaluate :: "geth \<Rightarrow> 's StatusReader \<Rightarrow> Analysis \<Rightarrow> ('s, Finding list) io" where
  "NFTDrainer_Evaluate G status a =
     io_bind (grant_loop G status a Map.empty [] (Analysis_ApprovalsForAll a))
       (\<lambda>grants. if length grants = 0 then ret []
          else ret (one_finding ''nft-drainer'' WeightMedium
                 (''approval for all NFTs: '' @ join '', '' grants)))"

definition NewNFTDrainer :: "geth \<Rightarrow> 's StatusReader \<Rightarrow> 's Rule" where
  "NewNFTDrainer G status =
     \<lparr>Rule_Name = ''nft-drainer'', Rule_Evaluate = NFTDrainer_Evaluate G status\<rparr>"

subsection \<open>What the rules report\<close>

lemma safe_listed:
  assumes "safe P m (\<lambda>ts. ts = texts)"
  shows "safe P (io_bind m (\<lambda>ts. if length ts = 0 then ret [] else ret (one_finding n w (i @ join '', '' ts))))
    (\<lambda>fs. fs = listed n w i texts)"
  by (rule safe_bind [OF assms]) (simp add: listed_def safe_ret)

definition is_delegate :: "Frame \<Rightarrow> bool" where
  "is_delegate f \<longleftrightarrow> Frame_Type f = ''DELEGATECALL'' \<or> Frame_Type f = ''CALLCODE''"

definition fresh_in :: "Analysis \<Rightarrow> (address \<Rightarrow> bool) \<Rightarrow> address \<Rightarrow> bool" where
  "fresh_in a fresh addr \<longleftrightarrow> addr \<in> set (Analysis_Created a) \<or> fresh addr"

definition fresh_targets :: "Analysis \<Rightarrow> (address \<Rightarrow> bool) \<Rightarrow> address list" where
  "fresh_targets a fresh =
     filter (fresh_in a fresh) (add_new [] (map Frame_To (filter is_delegate (Analysis_Frames a))))"

definition fresh_approvals :: "Analysis \<Rightarrow> (address \<Rightarrow> bool) \<Rightarrow> Approval list" where
  "fresh_approvals a fresh =
     filter (\<lambda>ap. 2 ^ 128 \<le> Approval_Amount ap \<and> fresh_in a fresh (Approval_Spender ap)) (Analysis_Approvals a)"

definition kind_in :: "Analysis \<Rightarrow> (address \<Rightarrow> Status) \<Rightarrow> address \<Rightarrow> string" where
  "kind_in a status x =
     (if x \<in> set (Analysis_Created a) \<or> status x = Fresh then ''recently deployed contract''
      else if status x = NoCode then ''EOA'' else '''')"

definition risky_grants :: "Analysis \<Rightarrow> (address \<Rightarrow> Status) \<Rightarrow> ApprovalForAll list" where
  "risky_grants a status =
     filter (\<lambda>ap. ApprovalForAll_Approved ap \<and>
        (ApprovalForAll_Operator ap \<in> set (Analysis_Created a) \<or> status (ApprovalForAll_Operator ap) \<noteq> Established))
       (Analysis_ApprovalsForAll a)"

locale freshness_client = lookup_service fresh inv is_fresh
  for fresh :: "'s FreshnessChecker" and inv :: "'s \<Rightarrow> bool" and is_fresh :: "address \<Rightarrow> bool" +
  fixes G :: geth
begin

lemma isFresh_safe: "safe inv (isFresh G fresh a addr) (\<lambda>b. b = fresh_in a is_fresh addr)"
proof (cases "CreatedInTx a addr")
  case True
  then show ?thesis by (simp add: isFresh_def CreatedInTx_def fresh_in_def safe_ret)
next
  case False
  then show ?thesis
    unfolding isFresh_def if_not_P [OF False]
    by (intro get_bind_wrapped safe_ret) (simp add: CreatedInTx_def fresh_in_def)
qed

lemma delegatecall_loop_safe:
  "safe inv (delegatecall_loop G fresh a (\<lambda>x. x \<in> set seen)
      (map (Address_Hex G) (filter (fresh_in a is_fresh) seen)) fs)
     (\<lambda>ts. ts = map (Address_Hex G) (filter (fresh_in a is_fresh)
        (add_new seen (map Frame_To (filter is_delegate fs)))))"
proof (induction fs arbitrary: seen)
  case Nil
  then show ?case by (simp add: add_new_simps safe_ret)
next
  case (Cons f fs)
  show ?case
  proof (cases "is_delegate f \<and> Frame_To f \<notin> set seen")
    case True
    let ?x = "Frame_To f"
    have upd: "(\<lambda>x. x \<in> set seen)(?x := True) = (\<lambda>x. x \<in> set (seen @ [?x]))"
      by (auto simp: fun_eq_iff)
    have step: "safe inv (delegatecall_loop G fresh a ((\<lambda>x. x \<in> set seen)(?x := True))
        (if b then map (Address_Hex G) (filter (fresh_in a is_fresh) seen) @ [Address_Hex G ?x]
         else map (Address_Hex G) (filter (fresh_in a is_fresh) seen)) fs)
        (\<lambda>ts. ts = map (Address_Hex G) (filter (fresh_in a is_fresh)
           (add_new seen (map Frame_To (filter is_delegate (f # fs))))))"
      if b: "b = fresh_in a is_fresh ?x" for b
    proof -
      have texts: "(if b then map (Address_Hex G) (filter (fresh_in a is_fresh) seen) @ [Address_Hex G ?x]
         else map (Address_Hex G) (filter (fresh_in a is_fresh) seen)) =
         map (Address_Hex G) (filter (fresh_in a is_fresh) (seen @ [?x]))"
        by (simp add: b)
      show ?thesis
        unfolding upd texts by (rule safe_weaken [OF Cons.IH]) (use True in \<open>simp add: add_new_simps\<close>)
    qed
    from True have "delegatecall_loop G fresh a (\<lambda>x. x \<in> set seen) ts (f # fs) =
       io_bind (isFresh G fresh a ?x) (\<lambda>b. delegatecall_loop G fresh a ((\<lambda>x. x \<in> set seen)(?x := True))
         (if b then ts @ [Address_Hex G ?x] else ts) fs)" for ts
      by (auto simp: is_delegate_def)
    then show ?thesis
      using safe_bind [OF isFresh_safe step] by simp
  next
    case False
    then have "delegatecall_loop G fresh a (\<lambda>x. x \<in> set seen) ts (f # fs) =
        delegatecall_loop G fresh a (\<lambda>x. x \<in> set seen) ts fs" for ts
      by (auto simp: is_delegate_def)
    with Cons.IH [of seen] False show ?thesis by (auto simp: add_new_simps)
  qed
qed

lemma approval_loop_safe:
  assumes "checked \<subseteq>\<^sub>m (\<lambda>x. Some (fresh_in a is_fresh x))"
  shows "safe inv (approval_loop G fresh a checked texts aps)
     (\<lambda>ts. ts = texts @ map (approval_text G)
        (filter (\<lambda>ap. 2 ^ 128 \<le> Approval_Amount ap \<and> fresh_in a is_fresh (Approval_Spender ap)) aps))"
  using assms
proof (induction aps arbitrary: checked texts)
  case Nil
  then show ?case by (simp add: safe_ret)
next
  case (Cons ap aps)
  let ?x = "Approval_Spender ap"
  let ?more = "\<lambda>b. if b then texts @ [approval_text G ap] else texts"
  have rest: "safe inv (approval_loop G fresh a checked' (?more b) aps)
      (\<lambda>ts. ts = texts @ map (approval_text G) (filter (\<lambda>ap. 2 ^ 128 \<le> Approval_Amount ap \<and>
         fresh_in a is_fresh (Approval_Spender ap)) (ap # aps)))"
    if "checked' \<subseteq>\<^sub>m (\<lambda>x. Some (fresh_in a is_fresh x))" "b = fresh_in a is_fresh ?x"
      "2 ^ 128 \<le> Approval_Amount ap" for checked' b
    by (rule safe_weaken [OF Cons.IH [OF that(1)]]) (use that in simp)
  show ?case
  proof (cases "Approval_Amount ap < 2 ^ 128")
    case True
    then show ?thesis using Cons.IH [OF Cons.prems] by (simp add: UnlimitedAmount_def)
  next
    case big: False
    show ?thesis
    proof (cases "checked ?x")
      case None
      have "safe inv (io_bind (isFresh G fresh a ?x)
          (\<lambda>b. approval_loop G fresh a (checked(?x \<mapsto> b)) (?more b) aps))
          (\<lambda>ts. ts = texts @ map (approval_text G) (filter (\<lambda>ap. 2 ^ 128 \<le> Approval_Amount ap \<and>
             fresh_in a is_fresh (Approval_Spender ap)) (ap # aps)))"
        by (rule safe_bind [OF isFresh_safe], rule rest)
          (use Cons.prems big in \<open>auto simp: map_le_def\<close>)
      with None big show ?thesis by (simp add: UnlimitedAmount_def)
    next
      case (Some b)
      with Cons.prems have "b = fresh_in a is_fresh ?x" by (force simp: map_le_def)
      with rest [OF Cons.prems this] Some big show ?thesis by (simp add: UnlimitedAmount_def)
    qed
  qed
qed

end

sublocale freshness_client \<subseteq> delegatecall: weighted_rule "NewDelegatecallToFresh G fresh" inv
  "\<lambda>a. listed ''delegatecall-to-fresh-code'' WeightMedium ''delegatecall into recently deployed code: ''
     (map (Address_Hex G) (fresh_targets a is_fresh))" WeightMedium
proof unfold_locales
  fix a
  have "safe inv (delegatecall_loop G fresh a (\<lambda>_. False) [] (Analysis_Frames a))
      (\<lambda>ts. ts = map (Address_Hex G) (fresh_targets a is_fresh))"
    using delegatecall_loop_safe [of a "[]" "Analysis_Frames a"] by (simp add: fresh_targets_def)
  then show "safe inv (Rule_Evaluate (NewDelegatecallToFresh G fresh) a)
      (\<lambda>fs. fs = listed ''delegatecall-to-fresh-code'' WeightMedium
         ''delegatecall into recently deployed code: '' (map (Address_Hex G) (fresh_targets a is_fresh)))"
    unfolding NewDelegatecallToFresh_def Rule.simps DelegatecallToFresh_Evaluate_def
    by (rule safe_listed)
qed (auto simp: NewDelegatecallToFresh_def WeightMedium_def listed_def one_finding_def split: if_splits)

sublocale freshness_client \<subseteq> approval: weighted_rule "NewUnlimitedApproval G fresh" inv
  "\<lambda>a. listed ''unlimited-approval-to-fresh-contract'' WeightMedium
     ''unlimited approval to recently deployed contract: ''
     (map (approval_text G) (fresh_approvals a is_fresh))" WeightMedium
proof unfold_locales
  fix a
  have "safe inv (approval_loop G fresh a Map.empty [] (Analysis_Approvals a))
      (\<lambda>ts. ts = map (approval_text G) (fresh_approvals a is_fresh))"
    using approval_loop_safe [of Map.empty a "[]" "Analysis_Approvals a"] by (simp add: fresh_approvals_def)
  then show "safe inv (Rule_Evaluate (NewUnlimitedApproval G fresh) a)
      (\<lambda>fs. fs = listed ''unlimited-approval-to-fresh-contract'' WeightMedium
         ''unlimited approval to recently deployed contract: ''
         (map (approval_text G) (fresh_approvals a is_fresh)))"
    unfolding NewUnlimitedApproval_def Rule.simps UnlimitedApproval_Evaluate_def
    by (rule safe_listed)
qed (auto simp: NewUnlimitedApproval_def WeightMedium_def listed_def one_finding_def split: if_splits)

locale status_client = lookup_service status inv age
  for status :: "'s StatusReader" and inv :: "'s \<Rightarrow> bool" and age :: "address \<Rightarrow> Status" +
  fixes G :: geth
begin

lemma operatorKind_safe: "safe inv (operatorKind G status a x) (\<lambda>k. k = kind_in a age x)"
proof (cases "CreatedInTx a x")
  case True
  then show ?thesis by (simp add: operatorKind_def CreatedInTx_def kind_in_def safe_ret)
next
  case False
  then show ?thesis
    unfolding operatorKind_def if_not_P [OF False]
    by (intro get_bind_wrapped) (cases "age x"; simp add: CreatedInTx_def kind_in_def safe_ret)
qed

lemma grant_loop_safe:
  assumes "kind \<subseteq>\<^sub>m (\<lambda>x. Some (kind_in a age x))"
  shows "safe inv (grant_loop G status a kind texts aps)
     (\<lambda>ts. ts = texts @ map (\<lambda>ap. grant_text G (kind_in a age (ApprovalForAll_Operator ap)) ap)
        (filter (\<lambda>ap. ApprovalForAll_Approved ap \<and> kind_in a age (ApprovalForAll_Operator ap) \<noteq> '''') aps))"
  using assms
proof (induction aps arbitrary: kind texts)
  case Nil
  then show ?case by (simp add: safe_ret)
next
  case (Cons ap aps)
  let ?x = "ApprovalForAll_Operator ap"
  let ?more = "\<lambda>k. if k \<noteq> '''' then texts @ [grant_text G k ap] else texts"
  let ?all = "texts @ map (\<lambda>ap. grant_text G (kind_in a age (ApprovalForAll_Operator ap)) ap)
      (filter (\<lambda>ap. ApprovalForAll_Approved ap \<and> kind_in a age (ApprovalForAll_Operator ap) \<noteq> '''') (ap # aps))"
  have rest: "safe inv (grant_loop G status a kind' (?more k) aps) (\<lambda>ts. ts = ?all)"
    if "kind' \<subseteq>\<^sub>m (\<lambda>x. Some (kind_in a age x))" "k = kind_in a age ?x" "ApprovalForAll_Approved ap" for kind' k
    by (rule safe_weaken [OF Cons.IH [OF that(1)]]) (use that in simp)
  show ?case
  proof (cases "ApprovalForAll_Approved ap")
    case False
    then show ?thesis using Cons.IH [OF Cons.prems] by simp
  next
    case True
    show ?thesis
    proof (cases "kind ?x")
      case None
      have "safe inv (io_bind (operatorKind G status a ?x)
          (\<lambda>k. grant_loop G status a (kind(?x \<mapsto> k)) (?more k) aps)) (\<lambda>ts. ts = ?all)"
        by (rule safe_bind [OF operatorKind_safe], rule rest)
          (use Cons.prems True in \<open>auto simp: map_le_def\<close>)
      with None True show ?thesis by simp
    next
      case (Some k)
      with Cons.prems have "k = kind_in a age ?x" by (force simp: map_le_def)
      moreover have "grant_loop G status a kind texts (ap # aps) = grant_loop G status a kind (?more k) aps"
        using Some True by simp
      ultimately show ?thesis using rest [OF Cons.prems _ True, of k] by (simp only:)
    qed
  qed
qed

end

lemma kind_in_risky:
  "kind_in a age x \<noteq> '''' \<longleftrightarrow> x \<in> set (Analysis_Created a) \<or> age x \<noteq> Established"
  by (cases "age x") (auto simp: kind_in_def)

sublocale status_client \<subseteq> nft: weighted_rule "NewNFTDrainer G status" inv
  "\<lambda>a. listed ''nft-drainer'' WeightMedium ''approval for all NFTs: ''
     (map (\<lambda>ap. grant_text G (kind_in a age (ApprovalForAll_Operator ap)) ap) (risky_grants a age))" WeightMedium
proof unfold_locales
  fix a
  have "safe inv (grant_loop G status a Map.empty [] (Analysis_ApprovalsForAll a))
      (\<lambda>ts. ts = map (\<lambda>ap. grant_text G (kind_in a age (ApprovalForAll_Operator ap)) ap) (risky_grants a age))"
    using grant_loop_safe [of Map.empty a "[]" "Analysis_ApprovalsForAll a"]
    by (simp add: risky_grants_def kind_in_risky)
  then show "safe inv (Rule_Evaluate (NewNFTDrainer G status) a)
      (\<lambda>fs. fs = listed ''nft-drainer'' WeightMedium ''approval for all NFTs: ''
         (map (\<lambda>ap. grant_text G (kind_in a age (ApprovalForAll_Operator ap)) ap) (risky_grants a age)))"
    unfolding NewNFTDrainer_def Rule.simps NFTDrainer_Evaluate_def by (rule safe_listed)
qed (auto simp: NewNFTDrainer_def WeightMedium_def listed_def one_finding_def split: if_splits)

context freshness_client
begin

lemmas delegatecall_safe = delegatecall.evaluate_safe

lemmas delegatecall_rule = delegatecall.rule_axioms

lemmas approval_safe = approval.evaluate_safe

lemmas approval_rule = approval.rule_axioms

end

context status_client
begin

lemmas nft_safe = nft.evaluate_safe

lemmas nft_rule = nft.rule_axioms

end

subsection \<open>The properties of the three rules\<close>

lemma fresh_targets_set:
  "distinct (fresh_targets a fresh) \<and>
   set (fresh_targets a fresh) =
     {x. (x \<in> set (Analysis_Created a) \<or> fresh x) \<and>
         (\<exists>f \<in> set (Analysis_Frames a). is_delegate f \<and> Frame_To f = x)}"
  by (auto simp: fresh_targets_def fresh_in_def set_add_new distinct_add_new)

text \<open>The age lookups of the example chain, for examples.\<close>

lemma example_freshness:
  "lookup_service (RPCFreshness_IsFreshContract geth_model example_reader)
     (rf_inv example_reader example_chain (\<lambda>_. True) (\<lambda>_ _. True)) (\<lambda>x. x = 7)"
  "lookup_service (RPCFreshness_Status geth_model example_reader)
     (rf_inv example_reader example_chain (\<lambda>_. True) (\<lambda>_ _. True)) (status_of example_chain 7200)"
  "rf_inv example_reader example_chain (\<lambda>_. True) (\<lambda>_ _. True) example_world"
proof -
  have win: "rf_window example_reader = 7200" by (simp add: example_reader_def)
  have "(\<lambda>a. status_of example_chain (rf_window example_reader) a = Fresh) = (\<lambda>x. x = 7)"
    by (auto simp: win status_of_def example_chain_def fun_eq_iff past_of_def)
  then show "lookup_service (RPCFreshness_IsFreshContract geth_model example_reader)
     (rf_inv example_reader example_chain (\<lambda>_. True) (\<lambda>_ _. True)) (\<lambda>x. x = 7)"
    using rf_fresh.lookup_service_axioms [of geth_model example_reader example_chain] by simp
  show "lookup_service (RPCFreshness_Status geth_model example_reader)
     (rf_inv example_reader example_chain (\<lambda>_. True) (\<lambda>_ _. True)) (status_of example_chain 7200)"
    using rf.lookup_service_axioms [of geth_model example_reader example_chain] by (simp add: win)
  show "rf_inv example_reader example_chain (\<lambda>_. True) (\<lambda>_ _. True) example_world"
    by (simp add: rf_inv_def example_reader_def chain_node_serves)
qed

text \<open>
  C23. The delegatecall rule, over any age lookup that answers truthfully or fails: it reports, each
  once, exactly the targets of DELEGATECALL and CALLCODE frames that the transaction itself created
  or that are recently deployed; a failed lookup is an error. Remembering the checked targets
  changes nothing of the report.
\<close>

theorem DelegatecallToFresh_correct:
  assumes "lookup_service fresh P is_fresh" and "P s"
    and "Rule_Evaluate (NewDelegatecallToFresh G fresh) a s = (r, t)"
  shows "\<exists>targets. distinct targets \<and>
      set targets = {x. (x \<in> set (Analysis_Created a) \<or> is_fresh x) \<and>
        (\<exists>f \<in> set (Analysis_Frames a). is_delegate f \<and> Frame_To f = x)} \<and>
      (r = Ok (listed ''delegatecall-to-fresh-code'' 20 ''delegatecall into recently deployed code: ''
         (map (Address_Hex G) targets)) \<or> (\<exists>e. r = Err e)) \<and> P t"
proof -
  note s = safeD [OF freshness_client.delegatecall_safe [OF freshness_client.intro [OF assms(1)]] assms(2)]
  show ?thesis
    using s(1) [OF assms(3)] s(2,3) assms(3) fresh_targets_set [of a is_fresh]
    by (intro exI [of _ "fresh_targets a is_fresh"]) (cases r, auto simp: WeightMedium_def)
qed

theorem DelegatecallToFresh_correct_witness:
  "\<exists>r t targets. Rule_Evaluate (NewDelegatecallToFresh geth_model
        (RPCFreshness_IsFreshContract geth_model example_reader))
      ((FromTx example_tx)\<lparr>Analysis_Frames := [frame_of 0 (plain_call ''DELEGATECALL'' 1 7 0 '''' [] [])]\<rparr>)
      example_world = (r, t) \<and>
    set targets = {7} \<and>
    (r = Ok (listed ''delegatecall-to-fresh-code'' 20 ''delegatecall into recently deployed code: ''
       (map (Address_Hex geth_model) targets)) \<or> (\<exists>e. r = Err e))"
proof -
  let ?a = "(FromTx example_tx)\<lparr>Analysis_Frames := [frame_of 0 (plain_call ''DELEGATECALL'' 1 7 0 '''' [] [])]\<rparr>"
  let ?run = "Rule_Evaluate (NewDelegatecallToFresh geth_model
    (RPCFreshness_IsFreshContract geth_model example_reader)) ?a example_world"
  obtain r t where rt: "?run = (r, t)" by (cases ?run)
  have seven: "{x. (x \<in> set (Analysis_Created ?a) \<or> x = 7) \<and>
      (\<exists>f \<in> set (Analysis_Frames ?a). is_delegate f \<and> Frame_To f = x)} = {7}"
    by (auto simp: is_delegate_def frame_of_def plain_call_def)
  from DelegatecallToFresh_correct [OF example_freshness(1,3) rt, unfolded seven] rt show ?thesis
    by (elim exE conjE) (intro exI conjI)
qed

text \<open>
  C24. The approval rule, over any age lookup that answers truthfully or fails: it reports exactly the
  ERC-20 approvals of at least 2 to the power 128 units whose spender the transaction created or is
  recently deployed, in order; a failed lookup is an error.
\<close>

theorem UnlimitedApproval_correct:
  assumes "lookup_service fresh P is_fresh" and "P s"
    and "Rule_Evaluate (NewUnlimitedApproval G fresh) a s = (r, t)"
  shows "(r = Ok (listed ''unlimited-approval-to-fresh-contract'' 20
            ''unlimited approval to recently deployed contract: ''
            (map (approval_text G) (filter (\<lambda>ap. 2 ^ 128 \<le> Approval_Amount ap \<and>
               (Approval_Spender ap \<in> set (Analysis_Created a) \<or> is_fresh (Approval_Spender ap)))
               (Analysis_Approvals a)))) \<or> (\<exists>e. r = Err e)) \<and> P t"
proof -
  note s = safeD [OF freshness_client.approval_safe [OF freshness_client.intro [OF assms(1)]] assms(2)]
  show ?thesis
    using s(1) [OF assms(3)] s(2,3) assms(3)
    by (cases r) (auto simp: WeightMedium_def fresh_approvals_def fresh_in_def)
qed

theorem UnlimitedApproval_correct_witness:
  "\<exists>r t. Rule_Evaluate (NewUnlimitedApproval geth_model
        (RPCFreshness_IsFreshContract geth_model example_reader))
      ((FromTx example_tx)\<lparr>Analysis_Approvals := [\<lparr>Approval_Token = 9, Approval_Owner = 1,
         Approval_Spender = 7, Approval_Amount = 2 ^ 256 - 1\<rparr>]\<rparr>)
      example_world = (r, t) \<and>
    (r = Ok (listed ''unlimited-approval-to-fresh-contract'' 20
            ''unlimited approval to recently deployed contract: ''
       [approval_text geth_model \<lparr>Approval_Token = 9, Approval_Owner = 1,
         Approval_Spender = 7, Approval_Amount = 2 ^ 256 - 1\<rparr>]) \<or> (\<exists>e. r = Err e))"
proof -
  let ?a = "(FromTx example_tx)\<lparr>Analysis_Approvals := [\<lparr>Approval_Token = 9, Approval_Owner = 1,
         Approval_Spender = 7, Approval_Amount = 2 ^ 256 - 1\<rparr>]\<rparr>"
  let ?run = "Rule_Evaluate (NewUnlimitedApproval geth_model
    (RPCFreshness_IsFreshContract geth_model example_reader)) ?a example_world"
  obtain r t where rt: "?run = (r, t)" by (cases ?run)
  from UnlimitedApproval_correct [OF example_freshness(1,3) rt] rt show ?thesis by simp
qed

text \<open>
  C25. The NFT rule, over any status lookup that answers truthfully or fails: it reports exactly the
  grants (not the revocations) of approval for all tokens to an operator without code, recently
  deployed, or created by the transaction, in order and with the kind of operator; a failed lookup is
  an error.
\<close>

theorem NFTDrainer_correct:
  assumes "lookup_service status P age" and "P s"
    and "Rule_Evaluate (NewNFTDrainer G status) a s = (r, t)"
  shows "(r = Ok (listed ''nft-drainer'' 20 ''approval for all NFTs: ''
            (map (\<lambda>ap. grant_text G (kind_in a age (ApprovalForAll_Operator ap)) ap)
              (filter (\<lambda>ap. ApprovalForAll_Approved ap \<and>
                 (ApprovalForAll_Operator ap \<in> set (Analysis_Created a) \<or>
                  age (ApprovalForAll_Operator ap) \<noteq> Established))
                (Analysis_ApprovalsForAll a)))) \<or> (\<exists>e. r = Err e)) \<and> P t"
proof -
  note s = safeD [OF status_client.nft_safe [OF status_client.intro [OF assms(1)]] assms(2)]
  show ?thesis
    using s(1) [OF assms(3)] s(2,3) assms(3)
    by (cases r) (auto simp: WeightMedium_def risky_grants_def)
qed

theorem NFTDrainer_correct_witness:
  "\<exists>r t. Rule_Evaluate (NewNFTDrainer geth_model (RPCFreshness_Status geth_model example_reader))
      ((FromTx example_tx)\<lparr>Analysis_ApprovalsForAll := [\<lparr>ApprovalForAll_Collection = 9,
         ApprovalForAll_Owner = 1, ApprovalForAll_Operator = 8, ApprovalForAll_Approved = True\<rparr>]\<rparr>)
      example_world = (r, t) \<and>
    (r = Ok (listed ''nft-drainer'' 20 ''approval for all NFTs: ''
       [grant_text geth_model ''EOA'' \<lparr>ApprovalForAll_Collection = 9,
         ApprovalForAll_Owner = 1, ApprovalForAll_Operator = 8, ApprovalForAll_Approved = True\<rparr>]) \<or>
     (\<exists>e. r = Err e))"
proof -
  let ?a = "(FromTx example_tx)\<lparr>Analysis_ApprovalsForAll := [\<lparr>ApprovalForAll_Collection = 9,
         ApprovalForAll_Owner = 1, ApprovalForAll_Operator = 8, ApprovalForAll_Approved = True\<rparr>]\<rparr>"
  let ?run = "Rule_Evaluate (NewNFTDrainer geth_model (RPCFreshness_Status geth_model example_reader))
    ?a example_world"
  obtain r t where rt: "?run = (r, t)" by (cases ?run)
  have eoa: "status_of example_chain 7200 8 = NoCode"
    by (simp add: status_of_def example_chain_def)
  from NFTDrainer_correct [OF example_freshness(2,3) rt] rt eoa show ?thesis
    by (simp add: kind_in_def)
qed

end
