(* ===== verification/RulesOutflow.thy ===== *)
theory RulesOutflow
  imports RulesFresh
begin

text \<open>
  Package \<open>internal/rules\<close>, \<open>outflow.go\<close> and \<open>flashloan.go\<close>: contracts that lose more than a
  percentage of what they held, and the same together with a flash loan from someone else.
\<close>

record Outflow =
  Outflow_Asset :: address
  Outflow_Holder :: address
  Outflow_Net :: int
  Outflow_Balance :: int

text \<open>\<open>big.Int.Div\<close>: Euclidean division, which panics (\<open>None\<close>) on a zero divisor.\<close>

definition big_Div :: "int \<Rightarrow> int \<Rightarrow> int option" where
  "big_Div x y = (if y = 0 then None else Some (if y > 0 then x div y else - (x div (- y))))"

definition Outflow_String :: "geth \<Rightarrow> Outflow \<Rightarrow> string option" where
  "Outflow_String G ofl =
     (let asset = (if Outflow_Asset ofl = ETH then ''ETH'' else ''token '' @ Address_Hex G (Outflow_Asset ofl))
      in case big_Div (Outflow_Net ofl * 100) (Outflow_Balance ofl) of
           None \<Rightarrow> None
         | Some pct \<Rightarrow>
             Some (show_int pct @ ''% of '' @ asset @ '' held by '' @ Address_Hex G (Outflow_Holder ofl) @
               '' ('' @ show_int (Outflow_Net ofl) @ '' of '' @ show_int (Outflow_Balance ofl) @ '')''))"

type_synonym 's BalanceReader = "address \<times> address \<Rightarrow> ('s, int option) io"

record 's OutflowDetector =
  od_status :: "'s StatusReader"
  od_balances :: "'s BalanceReader"
  od_percent :: int

definition NewOutflowDetector ::
  "'s StatusReader \<Rightarrow> 's BalanceReader \<Rightarrow> int \<Rightarrow> err + 's OutflowDetector" where
  "NewOutflowDetector status balances percent =
     (if percent < 1 \<or> percent > 100
      then Inl (ErrText ''large outflow percentage must be between 1 and 100'')
      else Inr \<lparr>od_status = status, od_balances = balances, od_percent = percent\<rparr>)"

definition outflow_of :: "Flow \<Rightarrow> int \<Rightarrow> int \<Rightarrow> Outflow" where
  "outflow_of f net bal =
     \<lparr>Outflow_Asset = Flow_Asset f, Outflow_Holder = Flow_Holder f, Outflow_Net = net, Outflow_Balance = bal\<rparr>"

fun find_loop ::
  "geth \<Rightarrow> 's OutflowDetector \<Rightarrow> Analysis \<Rightarrow> Outflow list \<Rightarrow> Flow list \<Rightarrow> ('s, Outflow list) io" where
  "find_loop G d a found [] = ret found"
| "find_loop G d a found (f # fs) =
     (let net = NetOut f
      in if net \<le> 0 \<or> Flow_Holder f = 0 \<or> CreatedInTx a (Flow_Holder f) then find_loop G d a found fs
         else io_bind
           (on_err (\<lambda>e. Wrapped (''status of '' @ Address_Hex G (Flow_Holder f) @ '': '') e '''')
              (od_status d (Flow_Holder f)))
           (\<lambda>s. if s = NoCode then find_loop G d a found fs
                else io_bind (od_balances d (Flow_Asset f, Flow_Holder f))
                  (\<lambda>bal. case bal of
                     None \<Rightarrow> find_loop G d a found fs
                   | Some b \<Rightarrow>
                       if b = 0 then find_loop G d a found fs
                       else find_loop G d a
                         (if net * 100 > b * od_percent d then found @ [outflow_of f net b] else found) fs)))"

definition OutflowDetector_Find :: "geth \<Rightarrow> 's OutflowDetector \<Rightarrow> Analysis \<Rightarrow> ('s, Outflow list) io" where
  "OutflowDetector_Find G d a = find_loop G d a [] (Analysis_Flows a)"

text \<open>The texts of a list of outflows; \<open>None\<close> when printing one of them panics.\<close>

fun outflow_texts :: "geth \<Rightarrow> Outflow list \<Rightarrow> string list option" where
  "outflow_texts G [] = Some []"
| "outflow_texts G (ofl # os) =
     (case Outflow_String G ofl of
        None \<Rightarrow> None
      | Some t \<Rightarrow> (case outflow_texts G os of None \<Rightarrow> None | Some ts \<Rightarrow> Some (t # ts)))"

definition LargeOutflow_Evaluate :: "geth \<Rightarrow> 's OutflowDetector \<Rightarrow> Analysis \<Rightarrow> ('s, Finding list) io" where
  "LargeOutflow_Evaluate G d a =
     io_bind (OutflowDetector_Find G d a)
       (\<lambda>outflows. if length outflows = 0 then ret []
          else io_bind (or_panic (outflow_texts G outflows))
            (\<lambda>parts. ret (one_finding ''large-outflow'' WeightHigh
                           (''large outflow: '' @ join '', '' parts))))"

definition NewLargeOutflow :: "geth \<Rightarrow> 's OutflowDetector \<Rightarrow> 's Rule" where
  "NewLargeOutflow G d =
     \<lparr>Rule_Name = ''large-outflow'', Rule_Evaluate = LargeOutflow_Evaluate G d\<rparr>"

subsection \<open>flashloan.go\<close>

definition loan_text :: "geth \<Rightarrow> FlashLoan \<Rightarrow> string" where
  "loan_text G l = Address_Hex G (FlashLoan_Lender l) @ '' ('' @ FlashLoan_Source l @ '')''"

fun lenders_of :: "(address \<Rightarrow> bool) \<Rightarrow> FlashLoan list \<Rightarrow> (address \<Rightarrow> bool)" where
  "lenders_of lenders [] = lenders"
| "lenders_of lenders (l # ls) = lenders_of (lenders(FlashLoan_Lender l := True)) ls"

definition FlashLoanOutflow_Evaluate :: "geth \<Rightarrow> 's OutflowDetector \<Rightarrow> Analysis \<Rightarrow> ('s, Finding list) io" where
  "FlashLoanOutflow_Evaluate G d a =
     (if length (Analysis_FlashLoans a) = 0 then ret []
      else io_bind (OutflowDetector_Find G d a)
        (\<lambda>outflows.
           let lenders = lenders_of (\<lambda>_. False) (Analysis_FlashLoans a);
               loans = map (loan_text G) (Analysis_FlashLoans a)
           in io_bind (or_panic (outflow_texts G (filter (\<lambda>ofl. \<not> lenders (Outflow_Holder ofl)) outflows)))
                (\<lambda>drained. if length drained = 0 then ret []
                   else ret (one_finding ''flash-loan-outflow'' WeightHigh
                          (''flash loan from '' @ join '', '' loans @ '' with large outflow: '' @
                           join '', '' drained)))))"

definition NewFlashLoanOutflow :: "geth \<Rightarrow> 's OutflowDetector \<Rightarrow> 's Rule" where
  "NewFlashLoanOutflow G d =
     \<lparr>Rule_Name = ''flash-loan-outflow'', Rule_Evaluate = FlashLoanOutflow_Evaluate G d\<rparr>"

subsection \<open>What the detector finds\<close>

text \<open>The flow is a large outflow of a contract, and from what balance.\<close>

definition large_outflow ::
  "(address \<Rightarrow> Status) \<Rightarrow> (address \<times> address \<Rightarrow> int option) \<Rightarrow> int \<Rightarrow> Analysis \<Rightarrow> Flow \<Rightarrow> Outflow option" where
  "large_outflow age bal percent a f =
     (case bal (Flow_Asset f, Flow_Holder f) of
        None \<Rightarrow> None
      | Some b \<Rightarrow>
          if 0 < NetOut f \<and> Flow_Holder f \<noteq> 0 \<and> Flow_Holder f \<notin> set (Analysis_Created a) \<and>
             age (Flow_Holder f) \<noteq> NoCode \<and> b \<noteq> 0 \<and> b * percent < NetOut f * 100
          then Some (outflow_of f (NetOut f) b) else None)"

definition large_outflows ::
  "(address \<Rightarrow> Status) \<Rightarrow> (address \<times> address \<Rightarrow> int option) \<Rightarrow> int \<Rightarrow> Analysis \<Rightarrow> Outflow list" where
  "large_outflows age bal percent a = List.map_filter (large_outflow age bal percent a) (Analysis_Flows a)"

lemma large_outflow_balance:
  "large_outflow age bal percent a f = Some ofl \<Longrightarrow> Outflow_Balance ofl \<noteq> 0"
  by (auto simp: large_outflow_def outflow_of_def split: option.splits if_splits)

lemma large_outflows_balance:
  "ofl \<in> set (large_outflows age bal percent a) \<Longrightarrow> Outflow_Balance ofl \<noteq> 0"
  by (auto simp: large_outflows_def map_filter_def dest: large_outflow_balance)

text \<open>The text of an outflow whose balance is not zero.\<close>

definition outflow_text :: "geth \<Rightarrow> Outflow \<Rightarrow> string" where
  "outflow_text G ofl = the (Outflow_String G ofl)"

lemma Outflow_String_defined: "Outflow_Balance ofl \<noteq> 0 \<Longrightarrow> Outflow_String G ofl = Some (outflow_text G ofl)"
  by (simp add: outflow_text_def Outflow_String_def big_Div_def Let_def)

lemma outflow_texts_defined:
  "\<forall>ofl \<in> set os. Outflow_Balance ofl \<noteq> 0 \<Longrightarrow> outflow_texts G os = Some (map (outflow_text G) os)"
  by (induction os) (simp_all add: Outflow_String_defined)

lemma lenders_of_eq: "lenders_of lenders ls x \<longleftrightarrow> lenders x \<or> x \<in> FlashLoan_Lender ` set ls"
  by (induction ls arbitrary: lenders) auto

locale outflow_client =
  st: lookup_service status inv age + ba: lookup_service balances inv bal
  for status :: "'s StatusReader" and balances :: "'s BalanceReader" and inv :: "'s \<Rightarrow> bool"
    and age :: "address \<Rightarrow> Status" and bal :: "address \<times> address \<Rightarrow> int option" +
  fixes G :: geth and percent :: int
begin

abbreviation detector :: "'s OutflowDetector" where
  "detector \<equiv> \<lparr>od_status = status, od_balances = balances, od_percent = percent\<rparr>"

lemma find_loop_safe:
  "safe inv (find_loop G detector a found fs)
     (\<lambda>os. os = found @ List.map_filter (large_outflow age bal percent a) fs)"
proof (induction fs arbitrary: found)
  case Nil
  then show ?case by (simp add: map_filter_simps safe_ret)
next
  case (Cons f fs)
  let ?h = "Flow_Holder f"
  let ?all = "found @ List.map_filter (large_outflow age bal percent a) (f # fs)"
  have skip: "safe inv (find_loop G detector a found fs) (\<lambda>os. os = ?all)"
    if "large_outflow age bal percent a f = None"
    by (rule safe_weaken [OF Cons.IH]) (simp add: map_filter_simps that)
  show ?case
  proof (cases "NetOut f \<le> 0 \<or> ?h = 0 \<or> CreatedInTx a ?h")
    case True
    then have "large_outflow age bal percent a f = None"
      by (auto simp: large_outflow_def CreatedInTx_def split: option.split)
    with skip True show ?thesis by (simp add: Let_def)
  next
    case False
    have hit: "safe inv (find_loop G detector a
        (if NetOut f * 100 > b * percent then found @ [outflow_of f (NetOut f) b] else found) fs)
        (\<lambda>os. os = ?all)" if "bal (Flow_Asset f, ?h) = Some b" "b \<noteq> 0" "age ?h \<noteq> NoCode" for b
      by (rule safe_weaken [OF Cons.IH])
        (use that False in \<open>auto simp: map_filter_simps large_outflow_def [of _ _ _ _ f] CreatedInTx_def\<close>)
    have "safe inv (if age ?h = NoCode then find_loop G detector a found fs
        else io_bind (balances (Flow_Asset f, ?h))
          (\<lambda>bal. case bal of None \<Rightarrow> find_loop G detector a found fs
             | Some b \<Rightarrow> if b = 0 then find_loop G detector a found fs
                else find_loop G detector a
                  (if NetOut f * 100 > b * percent then found @ [outflow_of f (NetOut f) b] else found) fs))
        (\<lambda>os. os = ?all)"
    proof (cases "age ?h = NoCode")
      case True
      then show ?thesis using skip by (simp add: large_outflow_def split: option.splits)
    next
      case False
      show ?thesis
        unfolding if_not_P [OF False]
        by (rule ba.get_bind) (use skip hit False in \<open>auto simp: large_outflow_def [of _ _ _ _ f] split: option.split\<close>)
    qed
    then show ?thesis
      using False by (simp only: find_loop.simps Let_def if_False OutflowDetector.simps)
        (rule st.get_bind_wrapped)
  qed
qed

lemma Find_safe: "safe inv (OutflowDetector_Find G detector a) (\<lambda>os. os = large_outflows age bal percent a)"
  using find_loop_safe [of a "[]" "Analysis_Flows a"] by (simp add: OutflowDetector_Find_def large_outflows_def)

end

text \<open>What the two rules report.\<close>

definition report_large ::
  "geth \<Rightarrow> (address \<Rightarrow> Status) \<Rightarrow> (address \<times> address \<Rightarrow> int option) \<Rightarrow> int \<Rightarrow> Analysis \<Rightarrow> Finding list" where
  "report_large G age bal percent a =
     listed ''large-outflow'' 40 ''large outflow: ''
       (map (outflow_text G) (large_outflows age bal percent a))"

definition drained ::
  "(address \<Rightarrow> Status) \<Rightarrow> (address \<times> address \<Rightarrow> int option) \<Rightarrow> int \<Rightarrow> Analysis \<Rightarrow> Outflow list" where
  "drained age bal percent a =
     (if Analysis_FlashLoans a = [] then []
      else filter (\<lambda>ofl. Outflow_Holder ofl \<notin> FlashLoan_Lender ` set (Analysis_FlashLoans a))
             (large_outflows age bal percent a))"

definition report_flash ::
  "geth \<Rightarrow> (address \<Rightarrow> Status) \<Rightarrow> (address \<times> address \<Rightarrow> int option) \<Rightarrow> int \<Rightarrow> Analysis \<Rightarrow> Finding list" where
  "report_flash G age bal percent a =
     listed ''flash-loan-outflow'' 40
       (''flash loan from '' @ join '', '' (map (loan_text G) (Analysis_FlashLoans a)) @ '' with large outflow: '')
       (map (outflow_text G) (drained age bal percent a))"

sublocale outflow_client \<subseteq> large: weighted_rule "NewLargeOutflow G detector" inv
  "report_large G age bal percent" WeightHigh
proof unfold_locales
  fix a
  have "safe inv (io_bind (OutflowDetector_Find G detector a)
      (\<lambda>outflows. if length outflows = 0 then ret []
          else io_bind (or_panic (outflow_texts G outflows))
            (\<lambda>parts. ret (one_finding ''large-outflow'' WeightHigh (''large outflow: '' @ join '', '' parts)))))
      (\<lambda>fs. fs = report_large G age bal percent a)"
    using large_outflows_balance
    by (intro safe_bind [OF Find_safe])
      (simp add: outflow_texts_defined report_large_def listed_def WeightHigh_def safe_ret or_panic_Some)
  then show "safe inv (Rule_Evaluate (NewLargeOutflow G detector) a) (\<lambda>fs. fs = report_large G age bal percent a)"
    by (simp add: NewLargeOutflow_def LargeOutflow_Evaluate_def)
qed (auto simp: NewLargeOutflow_def report_large_def WeightHigh_def listed_def one_finding_def split: if_splits)

sublocale outflow_client \<subseteq> flash: weighted_rule "NewFlashLoanOutflow G detector" inv
  "report_flash G age bal percent" WeightHigh
proof unfold_locales
  fix a :: Analysis
  let ?lenders = "lenders_of (\<lambda>_. False) (Analysis_FlashLoans a)"
  show "safe inv (Rule_Evaluate (NewFlashLoanOutflow G detector) a) (\<lambda>fs. fs = report_flash G age bal percent a)"
  proof (cases "Analysis_FlashLoans a = []")
    case True
    then show ?thesis
      by (simp add: NewFlashLoanOutflow_def FlashLoanOutflow_Evaluate_def report_flash_def drained_def listed_def safe_ret)
  next
    case False
    have d: "filter (\<lambda>ofl. \<not> ?lenders (Outflow_Holder ofl)) (large_outflows age bal percent a) =
        drained age bal percent a"
      using False by (simp add: drained_def lenders_of_eq)
    have t: "outflow_texts G (drained age bal percent a) = Some (map (outflow_text G) (drained age bal percent a))"
      by (rule outflow_texts_defined) (auto simp: drained_def dest: large_outflows_balance split: if_splits)
    show ?thesis
      using False unfolding NewFlashLoanOutflow_def Rule.simps FlashLoanOutflow_Evaluate_def
      by (auto intro!: safe_bind [OF Find_safe] simp: Let_def d t or_panic_Some report_flash_def listed_def WeightHigh_def safe_ret)
  qed
qed (auto simp: NewFlashLoanOutflow_def report_flash_def WeightHigh_def listed_def one_finding_def split: if_splits)

context outflow_client
begin

lemmas large_safe = large.evaluate_safe

lemmas large_rule = large.rule_axioms

lemmas flash_safe = flash.evaluate_safe

lemmas flash_rule = flash.rule_axioms

end

subsection \<open>The properties of the two rules\<close>

text \<open>A flow is a large outflow: the declarative reading of \<open>OutflowDetector\<close>'s comment.\<close>

definition loses_much ::
  "(address \<Rightarrow> Status) \<Rightarrow> (address \<times> address \<Rightarrow> int option) \<Rightarrow> int \<Rightarrow> Analysis \<Rightarrow> Flow \<Rightarrow> bool" where
  "loses_much age bal percent a f \<longleftrightarrow>
     0 < NetOut f \<and> Flow_Holder f \<noteq> 0 \<and> Flow_Holder f \<notin> set (Analysis_Created a) \<and>
     age (Flow_Holder f) \<noteq> NoCode \<and>
     (\<exists>b. bal (Flow_Asset f, Flow_Holder f) = Some b \<and> b \<noteq> 0 \<and> b * percent < NetOut f * 100)"

lemma large_outflow_eq:
  "large_outflow age bal percent a f =
     (if loses_much age bal percent a f
      then Some (outflow_of f (NetOut f) (the (bal (Flow_Asset f, Flow_Holder f)))) else None)"
  by (auto simp: large_outflow_def loses_much_def split: option.split)

lemma large_outflows_eq:
  "large_outflows age bal percent a =
     map (\<lambda>f. outflow_of f (NetOut f) (the (bal (Flow_Asset f, Flow_Holder f))))
       (filter (loses_much age bal percent a) (Analysis_Flows a))"
  by (simp add: large_outflows_def map_filter_def large_outflow_eq comp_def cong: if_cong)

lemma drained_eq:
  "drained age bal percent a =
     map (\<lambda>f. outflow_of f (NetOut f) (the (bal (Flow_Asset f, Flow_Holder f))))
       (if Analysis_FlashLoans a = [] then []
        else filter (\<lambda>f. loses_much age bal percent a f \<and>
               Flow_Holder f \<notin> FlashLoan_Lender ` set (Analysis_FlashLoans a)) (Analysis_Flows a))"
  by (simp add: drained_def large_outflows_eq filter_map comp_def outflow_of_def conj_commute)

text \<open>Where the balances are not zero, every outflow has a text.\<close>

lemma texts_exist:
  assumes "\<forall>ofl \<in> set (map g fs). Outflow_Balance ofl \<noteq> 0"
  shows "map (\<lambda>f. Outflow_String G (g f)) fs = map Some (map (outflow_text G) (map g fs))"
  using assms by (simp add: Outflow_String_defined)

lemma safe_outcome:
  assumes "safe P m (\<lambda>v. v = x)" and "P s" and "m s = (r, t)"
  shows "P t \<and> (r = Ok x \<or> (\<exists>e. r = Err e))"
  using safeD [OF assms(1,2)] assms(3) by (cases r) auto

text \<open>
  C17. The large-outflow rule, built with a percentage it accepts and over lookups that answer
  truthfully or fail: it lists exactly the flows, in order, whose holder has code, was not created by
  the transaction, is not the zero address, has a readable balance that is not zero, and loses net
  more than that percentage of it; each with its asset, holder, net loss and balance. They are one
  finding of the high weight 40, none when there are no such flows; printing never divides by zero; a
  failed lookup is an error.
\<close>

theorem LargeOutflow_correct:
  assumes "lookup_service status P age" and "lookup_service balances P bal"
    and "NewOutflowDetector status balances percent = Inr d" and "P s"
    and "Rule_Evaluate (NewLargeOutflow G d) a s = (r, t)"
  shows "P t \<and> 1 \<le> percent \<and> percent \<le> 100 \<and>
    ((\<exists>parts.
        map (\<lambda>f. Outflow_String G \<lparr>Outflow_Asset = Flow_Asset f, Outflow_Holder = Flow_Holder f,
              Outflow_Net = NetOut f, Outflow_Balance = the (bal (Flow_Asset f, Flow_Holder f))\<rparr>)
          (filter (loses_much age bal percent a) (Analysis_Flows a)) = map Some parts \<and>
        r = Ok (if parts = [] then []
          else [\<lparr>Finding_Rule = ''large-outflow'', Finding_HardBlock = False, Finding_Weight = 40,
                 Finding_Reason = ''large outflow: '' @ join '', '' parts\<rparr>])) \<or> (\<exists>e. r = Err e))"
proof -
  have d: "d = \<lparr>od_status = status, od_balances = balances, od_percent = percent\<rparr>" "1 \<le> percent" "percent \<le> 100"
    using assms(3) by (auto simp: NewOutflowDetector_def split: if_splits)
  let ?os = "large_outflows age bal percent a"
  have "P t \<and> (r = Ok (report_large G age bal percent a) \<or> (\<exists>e. r = Err e))"
    using safe_outcome [OF outflow_client.large_safe [OF outflow_client.intro [OF assms(1,2)]] assms(4)]
      assms(5) [unfolded d(1)] by blast
  moreover have "report_large G age bal percent a =
      (if map (outflow_text G) ?os = [] then []
       else [\<lparr>Finding_Rule = ''large-outflow'', Finding_HardBlock = False, Finding_Weight = 40,
              Finding_Reason = ''large outflow: '' @ join '', '' (map (outflow_text G) ?os)\<rparr>])"
    by (simp add: report_large_def listed_def WeightHigh_def one_finding_def)
  moreover have "map (\<lambda>f. Outflow_String G \<lparr>Outflow_Asset = Flow_Asset f, Outflow_Holder = Flow_Holder f,
              Outflow_Net = NetOut f, Outflow_Balance = the (bal (Flow_Asset f, Flow_Holder f))\<rparr>)
          (filter (loses_much age bal percent a) (Analysis_Flows a)) = map Some (map (outflow_text G) ?os)"
    unfolding large_outflows_eq outflow_of_def [symmetric]
    by (rule texts_exist) (use large_outflows_balance [of _ age bal percent a] in \<open>auto simp: large_outflows_eq\<close>)
  ultimately show ?thesis using d(2,3) by blast
qed

text \<open>
  C18. The flash-loan rule under the same conditions: it reports only when the transaction has a
  flash loan, and then lists exactly such outflows of contracts that are not one of the lenders, as
  one finding of the high weight 40 that also names the loans.
\<close>

theorem FlashLoanOutflow_correct:
  assumes "lookup_service status P age" and "lookup_service balances P bal"
    and "NewOutflowDetector status balances percent = Inr d" and "P s"
    and "Rule_Evaluate (NewFlashLoanOutflow G d) a s = (r, t)"
  shows "P t \<and>
    ((\<exists>parts.
        map (\<lambda>f. Outflow_String G \<lparr>Outflow_Asset = Flow_Asset f, Outflow_Holder = Flow_Holder f,
              Outflow_Net = NetOut f, Outflow_Balance = the (bal (Flow_Asset f, Flow_Holder f))\<rparr>)
          (if Analysis_FlashLoans a = [] then []
           else filter (\<lambda>f. loses_much age bal percent a f \<and>
                  Flow_Holder f \<notin> FlashLoan_Lender ` set (Analysis_FlashLoans a)) (Analysis_Flows a)) =
          map Some parts \<and>
        r = Ok (if parts = [] then []
          else [\<lparr>Finding_Rule = ''flash-loan-outflow'', Finding_HardBlock = False, Finding_Weight = 40,
                 Finding_Reason = ''flash loan from '' @ join '', '' (map (loan_text G) (Analysis_FlashLoans a)) @
                   '' with large outflow: '' @ join '', '' parts\<rparr>])) \<or> (\<exists>e. r = Err e))"
proof -
  have d: "d = \<lparr>od_status = status, od_balances = balances, od_percent = percent\<rparr>"
    using assms(3) by (auto simp: NewOutflowDetector_def split: if_splits)
  let ?os = "drained age bal percent a"
  have "P t \<and> (r = Ok (report_flash G age bal percent a) \<or> (\<exists>e. r = Err e))"
    using safe_outcome [OF outflow_client.flash_safe [OF outflow_client.intro [OF assms(1,2)]] assms(4)]
      assms(5) [unfolded d] by blast
  moreover have "report_flash G age bal percent a =
      (if map (outflow_text G) ?os = [] then []
       else [\<lparr>Finding_Rule = ''flash-loan-outflow'', Finding_HardBlock = False, Finding_Weight = 40,
              Finding_Reason = ''flash loan from '' @ join '', '' (map (loan_text G) (Analysis_FlashLoans a)) @
                '' with large outflow: '' @ join '', '' (map (outflow_text G) ?os)\<rparr>])"
    by (simp add: report_flash_def listed_def WeightHigh_def one_finding_def)
  moreover have "map (\<lambda>f. Outflow_String G \<lparr>Outflow_Asset = Flow_Asset f, Outflow_Holder = Flow_Holder f,
              Outflow_Net = NetOut f, Outflow_Balance = the (bal (Flow_Asset f, Flow_Holder f))\<rparr>)
          (if Analysis_FlashLoans a = [] then []
           else filter (\<lambda>f. loses_much age bal percent a f \<and>
                  Flow_Holder f \<notin> FlashLoan_Lender ` set (Analysis_FlashLoans a)) (Analysis_Flows a)) =
          map Some (map (outflow_text G) ?os)"
    unfolding drained_eq outflow_of_def [symmetric]
    by (rule texts_exist) (use large_outflows_balance [of _ age bal percent a] in \<open>auto simp: large_outflows_eq\<close>)
  ultimately show ?thesis by blast
qed

text \<open>Contract 2, which holds 100 of token 9, loses 60; contract 3 lent token 9.\<close>

definition example_outflow :: Analysis where
  "example_outflow =
     (FromTx example_tx)\<lparr>Analysis_Flows := [\<lparr>Flow_Asset = 9, Flow_Holder = 2, Flow_Out = 60, Flow_In = 0\<rparr>],
       Analysis_FlashLoans := [\<lparr>FlashLoan_Lender = 3, FlashLoan_Token = 9, FlashLoan_Amount = Some 5,
         FlashLoan_Source = RepaidPattern\<rparr>]\<rparr>"

abbreviation example_balances :: "unit world BalanceReader" where
  "example_balances \<equiv> (\<lambda>k. RPCBalances_Balance geth_model (rf_reader example_reader) (fst k) (snd k))"

lemma example_loses_much:
  "loses_much (status_of example_chain 7200) (balance_of geth_model example_chain) 50 example_outflow
     \<lparr>Flow_Asset = 9, Flow_Holder = 2, Flow_Out = 60, Flow_In = 0\<rparr>"
proof -
  have "balance_of geth_model example_chain (9, 2) = Some 100"
    by (simp add: balance_of_def example_chain_def be_int_be_bytes)
  moreover have "status_of example_chain 7200 2 \<noteq> NoCode"
    by (simp add: status_of_def example_chain_def)
  ultimately show ?thesis by (simp add: loses_much_def NetOut_def example_outflow_def)
qed

lemma example_balance_lookup:
  "lookup_service example_balances (rf_inv example_reader example_chain (\<lambda>_. True) (\<lambda>_ _. True))
     (balance_of geth_model example_chain)"
  using rb.lookup_service_axioms [of geth_model example_reader example_chain "\<lambda>_. True" "\<lambda>_ _. True"]
  by (simp add: example_reader_def chain_node_errors)

lemma example_detector:
  "NewOutflowDetector (RPCFreshness_Status geth_model example_reader) example_balances 50 =
     Inr \<lparr>od_status = RPCFreshness_Status geth_model example_reader, od_balances = example_balances, od_percent = 50\<rparr>"
  by (simp add: NewOutflowDetector_def)

theorem LargeOutflow_correct_witness:
  "\<exists>r t. Rule_Evaluate (NewLargeOutflow geth_model
        \<lparr>od_status = RPCFreshness_Status geth_model example_reader, od_balances = example_balances, od_percent = 50\<rparr>)
      example_outflow example_world = (r, t) \<and>
    ((\<exists>part. Outflow_String geth_model \<lparr>Outflow_Asset = 9, Outflow_Holder = 2, Outflow_Net = 60, Outflow_Balance = 100\<rparr> =
          Some part \<and>
        r = Ok [\<lparr>Finding_Rule = ''large-outflow'', Finding_HardBlock = False, Finding_Weight = 40,
                 Finding_Reason = ''large outflow: '' @ part\<rparr>]) \<or> (\<exists>e. r = Err e))"
proof -
  let ?run = "Rule_Evaluate (NewLargeOutflow geth_model
        \<lparr>od_status = RPCFreshness_Status geth_model example_reader, od_balances = example_balances, od_percent = 50\<rparr>)
      example_outflow example_world"
  obtain r t where rt: "?run = (r, t)" by (cases ?run)
  have flows: "Analysis_Flows example_outflow = [\<lparr>Flow_Asset = 9, Flow_Holder = 2, Flow_Out = 60, Flow_In = 0\<rparr>]"
    by (simp add: example_outflow_def)
  have bal: "balance_of geth_model example_chain (9, 2) = Some 100"
    by (simp add: balance_of_def example_chain_def be_int_be_bytes)
  have os: "map Some parts = [x] \<longleftrightarrow> (\<exists>p. parts = [p] \<and> x = Some p)" for parts and x :: "string option"
    by (cases parts) auto
  show ?thesis
    using LargeOutflow_correct [OF example_freshness(2) example_balance_lookup example_detector
      example_freshness(3) rt] rt example_loses_much
    by (auto simp: flows bal os NetOut_def eq_commute [of _ "map Some _"])
qed

theorem FlashLoanOutflow_correct_witness:
  "\<exists>r t. Rule_Evaluate (NewFlashLoanOutflow geth_model
        \<lparr>od_status = RPCFreshness_Status geth_model example_reader, od_balances = example_balances, od_percent = 50\<rparr>)
      example_outflow example_world = (r, t) \<and>
    ((\<exists>x. r = Ok [x] \<and> Finding_Rule x = ''flash-loan-outflow'' \<and> Finding_Weight x = 40) \<or> (\<exists>e. r = Err e))"
proof -
  let ?run = "Rule_Evaluate (NewFlashLoanOutflow geth_model
        \<lparr>od_status = RPCFreshness_Status geth_model example_reader, od_balances = example_balances, od_percent = 50\<rparr>)
      example_outflow example_world"
  obtain r t where rt: "?run = (r, t)" by (cases ?run)
  have flows: "Analysis_Flows example_outflow = [\<lparr>Flow_Asset = 9, Flow_Holder = 2, Flow_Out = 60, Flow_In = 0\<rparr>]"
    "FlashLoan_Lender ` set (Analysis_FlashLoans example_outflow) = {3}" "Analysis_FlashLoans example_outflow \<noteq> []"
    by (simp_all add: example_outflow_def)
  have os: "map Some parts = [x] \<Longrightarrow> parts \<noteq> []" for parts and x :: "string option" by auto
  show ?thesis
    using FlashLoanOutflow_correct [OF example_freshness(2) example_balance_lookup example_detector
      example_freshness(3) rt] rt example_loses_much
    by (auto simp: flows dest: os [OF sym])
qed

end
