(* ===== verification/Risk.thy ===== *)
theory Risk
  imports RulesOutflow
begin

text \<open>
  Package \<open>internal/risk\<close>: the engine runs every rule and turns the findings into a verdict. The
  score is Go's \<open>int\<close>, so the sum is kept with its wrap-around.
\<close>

record Verdict =
  Verdict_Block :: bool
  Verdict_Score :: int
  Verdict_Findings :: "Finding list"

record 's Engine =
  Engine_rules :: "'s Rule list"
  Engine_threshold :: int

definition NewEngine :: "int \<Rightarrow> 's Rule list \<Rightarrow> err + 's Engine" where
  "NewEngine threshold rs =
     (if threshold \<le> 0 then Inl (ErrText ''risk threshold must be positive'')
      else Inr \<lparr>Engine_rules = rs, Engine_threshold = threshold\<rparr>)"

definition zero_verdict :: Verdict where
  "zero_verdict = \<lparr>Verdict_Block = False, Verdict_Score = 0, Verdict_Findings = []\<rparr>"

fun add_findings :: "Verdict \<Rightarrow> Finding list \<Rightarrow> Verdict" where
  "add_findings v [] = v"
| "add_findings v (f # fs) =
     add_findings
       \<lparr>Verdict_Block = (if Finding_HardBlock f then True else Verdict_Block v),
        Verdict_Score = wrap_int (Verdict_Score v + Finding_Weight f),
        Verdict_Findings = Verdict_Findings v @ [f]\<rparr> fs"

fun rules_loop :: "Analysis \<Rightarrow> Verdict \<Rightarrow> 's Rule list \<Rightarrow> ('s, Verdict) io" where
  "rules_loop a v [] = ret v"
| "rules_loop a v (r # rs) =
     io_bind (on_err (\<lambda>e. Wrapped (''rule '' @ Rule_Name r @ '': '') e '''') (Rule_Evaluate r a))
       (\<lambda>findings. rules_loop a (add_findings v findings) rs)"

definition Engine_Evaluate :: "'s Engine \<Rightarrow> Analysis \<Rightarrow> ('s, Verdict) io" where
  "Engine_Evaluate e a =
     io_bind (rules_loop a zero_verdict (Engine_rules e))
       (\<lambda>v. ret (if Verdict_Score v \<ge> Engine_threshold e then v\<lparr>Verdict_Block := True\<rparr> else v))"

subsection \<open>The verdict of a list of findings\<close>

definition total_weight :: "Finding list \<Rightarrow> int" where
  "total_weight fs = (\<Sum>f \<leftarrow> fs. Finding_Weight f)"

definition verdict_of :: "int \<Rightarrow> Finding list \<Rightarrow> Verdict" where
  "verdict_of threshold fs =
     \<lparr>Verdict_Block = (list_ex Finding_HardBlock fs \<or> threshold \<le> wrap_int (total_weight fs)),
      Verdict_Score = wrap_int (total_weight fs), Verdict_Findings = fs\<rparr>"

lemma wrap_int_add: "wrap_int (wrap_int x + y) = wrap_int (x + y)"
  unfolding wrap_int_def by (metis signed_take_bit_add signed_take_bit_signed_take_bit min.idem)

lemma add_findings_eq:
  assumes "Verdict_Score v = wrap_int (total_weight (Verdict_Findings v))"
    and "Verdict_Block v \<longleftrightarrow> list_ex Finding_HardBlock (Verdict_Findings v)"
  shows "add_findings v fs =
    \<lparr>Verdict_Block = list_ex Finding_HardBlock (Verdict_Findings v @ fs),
     Verdict_Score = wrap_int (total_weight (Verdict_Findings v @ fs)),
     Verdict_Findings = Verdict_Findings v @ fs\<rparr>"
  using assms
proof (induction fs arbitrary: v)
  case Nil
  then show ?case by simp
next
  case (Cons f fs)
  then show ?case by (simp add: wrap_int_add total_weight_def add.assoc)
qed

lemma add_findings_append: "add_findings (add_findings v fs) gs = add_findings v (fs @ gs)"
  by (induction fs arbitrary: v) simp_all

text \<open>Every rule runs, in order, and each one succeeds.\<close>

inductive all_run :: "Analysis \<Rightarrow> 's Rule list \<Rightarrow> 's \<Rightarrow> Finding list list \<Rightarrow> 's \<Rightarrow> bool" for a where
  none: "all_run a [] s [] s"
| step: "Rule_Evaluate r a s = (Ok fs, u) \<Longrightarrow> all_run a rs u fss t \<Longrightarrow> all_run a (r # rs) s (fs # fss) t"

inductive_simps all_run_simps:
  "all_run a [] s fss t" "all_run a (r # rs) s fss t"

lemma rules_loop_Ok:
  assumes "Verdict_Score v = wrap_int (total_weight (Verdict_Findings v))"
    and "Verdict_Block v \<longleftrightarrow> list_ex Finding_HardBlock (Verdict_Findings v)"
  shows "rules_loop a v rs s = (Ok v', t) \<longleftrightarrow>
    (\<exists>fss. all_run a rs s fss t \<and> v' = add_findings v (concat fss))"
  using assms
proof (induction rs arbitrary: v s)
  case Nil
  then show ?case by (auto simp: all_run_simps)
next
  case (Cons r rs)
  have "rules_loop a (add_findings v fs) rs u = (Ok v', t) \<longleftrightarrow>
      (\<exists>fss. all_run a rs u fss t \<and> v' = add_findings v (fs @ concat fss))" for fs u
    unfolding add_findings_append [symmetric]
    by (rule Cons.IH) (simp_all add: add_findings_eq [OF Cons.prems])
  then show ?case by (auto simp: io_bind_Ok_iff all_run_simps) force
qed

lemma Engine_Evaluate_Ok:
  "Engine_Evaluate e a s = (Ok v, t) \<longleftrightarrow>
     (\<exists>fss. all_run a (Engine_rules e) s fss t \<and> v = verdict_of (Engine_threshold e) (concat fss))"
proof -
  have z: "Verdict_Score zero_verdict = wrap_int (total_weight (Verdict_Findings zero_verdict))"
    "Verdict_Block zero_verdict \<longleftrightarrow> list_ex Finding_HardBlock (Verdict_Findings zero_verdict)"
    by (simp_all add: zero_verdict_def total_weight_def)
  have "Verdict_Findings zero_verdict = []" by (simp add: zero_verdict_def)
  with add_findings_eq [OF z] have final: "(let v = add_findings zero_verdict fs
      in if Engine_threshold e \<le> Verdict_Score v then v\<lparr>Verdict_Block := True\<rparr> else v) =
      verdict_of (Engine_threshold e) fs" for fs
    by (simp add: verdict_of_def Let_def)
  show ?thesis
    unfolding Engine_Evaluate_def io_bind_Ok_iff rules_loop_Ok [OF z] ret_iffs final [symmetric] Let_def
    by blast
qed

text \<open>
  C6. The engine gives a verdict exactly when every rule ran and succeeded, in order: a rule that
  fails makes the whole evaluation fail, so a partial verdict is impossible. The verdict lists all
  findings in order, its score is the sum of their weights (as a 64-bit integer), and it blocks
  exactly when a finding is a hard block or the score reaches the threshold.
\<close>

theorem Engine_Evaluate_correct:
  "Engine_Evaluate e a s = (Ok v, t) \<longleftrightarrow>
     (\<exists>fss. all_run a (Engine_rules e) s fss t \<and>
        Verdict_Findings v = concat fss \<and>
        Verdict_Score v = wrap_int (\<Sum>f \<leftarrow> concat fss. Finding_Weight f) \<and>
        (Verdict_Block v \<longleftrightarrow> (\<exists>f \<in> set (concat fss). Finding_HardBlock f) \<or>
           Engine_threshold e \<le> wrap_int (\<Sum>f \<leftarrow> concat fss. Finding_Weight f)))"
proof -
  have "v = verdict_of (Engine_threshold e) fs \<longleftrightarrow>
      Verdict_Findings v = fs \<and> Verdict_Score v = wrap_int (\<Sum>f \<leftarrow> fs. Finding_Weight f) \<and>
      (Verdict_Block v \<longleftrightarrow> (\<exists>f \<in> set fs. Finding_HardBlock f) \<or>
         Engine_threshold e \<le> wrap_int (\<Sum>f \<leftarrow> fs. Finding_Weight f))" for fs
    by (cases v) (auto simp: verdict_of_def total_weight_def list_ex_iff)
  then show ?thesis by (simp add: Engine_Evaluate_Ok)
qed

subsection \<open>Engines over rules that keep their contract\<close>

locale rules_engine =
  fixes rs :: "'s Rule list" and inv :: "'s \<Rightarrow> bool" and reports :: "(Analysis \<Rightarrow> Finding list) list"
  assumes each_rule: "list_all2 (\<lambda>r report. rule r inv report) rs reports"
begin

lemma loop_safe: "safe inv (rules_loop a v rs) (\<lambda>v'. v' = add_findings v (concat (map (\<lambda>rep. rep a) reports)))"
  using each_rule
proof (induction rs reports arbitrary: v rule: list_all2_induct)
  case Nil
  then show ?case by (simp add: safe_ret)
next
  case (Cons r rs rep reps)
  show ?case
    unfolding rules_loop.simps
    by (rule safe_bind [OF safe_on_err [OF rule.evaluate_safe [OF Cons.hyps(1)]]])
      (use Cons.IH [of "add_findings v (rep a)"] in \<open>simp add: add_findings_append\<close>)
qed

lemma engine_safe:
  "safe inv (Engine_Evaluate \<lparr>Engine_rules = rs, Engine_threshold = threshold\<rparr> a)
     (\<lambda>v. v = verdict_of threshold (concat (map (\<lambda>rep. rep a) reports)))"
proof -
  have "(if threshold \<le> Verdict_Score w then w\<lparr>Verdict_Block := True\<rparr> else w) = verdict_of threshold fs"
    if "w = add_findings zero_verdict fs" for w fs
    using add_findings_eq [of zero_verdict fs] that
    by (simp add: verdict_of_def zero_verdict_def total_weight_def)
  then show ?thesis
    unfolding Engine_Evaluate_def Engine.simps by (intro safe_bind [OF loop_safe] safe_ret)
qed

end

end
