(* ===== verification/Simulate.thy ===== *)
theory Simulate
  imports Chainstate
begin

text \<open>
  Package \<open>internal/simulate\<close>: tracing a transaction on the node, and the distinction between a
  transaction the node refuses and a node that cannot answer. \<open>CallFrame\<close>, \<open>Log\<close> and \<open>newCallArgs\<close>
  are in \<open>Trace\<close>. The timeout of a call is an error of the node.
\<close>

definition isTxRejection :: "int \<Rightarrow> bool" where
  "isTxRejection code \<longleftrightarrow> code = -32000 \<or> code = -32003"

definition trace :: "'e node \<Rightarrow> callArgs \<Rightarrow> ('e world, CallFrame) io" where
  "trace client args =
     io_bind (io_try (ext_call (node_TraceCall client args)))
       (\<lambda>r. case r of
          Inl e \<Rightarrow>
            (case as_rpc e of
               Some (code, msg) \<Rightarrow>
                 if isTxRejection code then throw (NodeError msg)
                 else throw (Wrapped ''debug_traceCall: '' e '''')
             | None \<Rightarrow> throw (Wrapped ''debug_traceCall: '' e ''''))
        | Inr frame \<Rightarrow>
            if Call_Type frame = '''' then throw (ErrText ''debug_traceCall: empty trace'')
            else ret frame)"

definition RPCSimulator_Simulate :: "'e node \<Rightarrow> Decoded \<Rightarrow> ('e world, CallFrame) io" where
  "RPCSimulator_Simulate client tx = trace client (newCallArgs tx)"

definition RPCSimulator_Verify :: "'e node \<Rightarrow> ('e world, unit) io" where
  "RPCSimulator_Verify client =
     io_bind (on_err (\<lambda>e. Wrapped ''node does not support debug_traceCall with callTracer: '' e '''')
        (trace client \<lparr>callArgs_From = 0, callArgs_To = Some 0, callArgs_Gas = 100000,
           callArgs_Value = 0, callArgs_Input = []\<rparr>))
       (\<lambda>_. ret ())"

lemma trace_run:
  assumes "node_TraceCall N args (w_ext w) = (r, x)"
  shows "trace N args w =
    ((case r of
        Inl e \<Rightarrow>
          (case as_rpc e of
             Some (code, msg) \<Rightarrow>
               if isTxRejection code then Err (NodeError msg) else Err (Wrapped ''debug_traceCall: '' e '''')
           | None \<Rightarrow> Err (Wrapped ''debug_traceCall: '' e ''''))
      | Inr frame \<Rightarrow>
          if Call_Type frame = '''' then Err (ErrText ''debug_traceCall: empty trace'') else Ok frame),
     w\<lparr>w_ext := x\<rparr>)"
proof -
  have "io_try (ext_call (node_TraceCall N args)) w = (Ok r, w\<lparr>w_ext := x\<rparr>)"
    using assms by (auto simp: io_try_def ext_call_def split: sum.splits)
  then show ?thesis
    by (simp add: trace_def io_bind_def throw_def ret_def split: sum.split option.split)
qed

lemma trace_Ok:
  "trace N args w = (Ok f, t) \<longleftrightarrow>
     (\<exists>x. node_TraceCall N args (w_ext w) = (Inr f, x) \<and> t = w\<lparr>w_ext := x\<rparr>) \<and> Call_Type f \<noteq> ''''"
  by (cases "node_TraceCall N args (w_ext w)")
    (auto simp: trace_run split: sum.splits option.splits if_splits)

lemma ext_only_trace [ext_only_intros]: "ext_only (trace N args)"
  unfolding trace_def by (auto intro!: ext_only_intros split: sum.split option.split)

lemma ext_only_Simulate [ext_only_intros]: "ext_only (RPCSimulator_Simulate N tx)"
  by (simp add: RPCSimulator_Simulate_def ext_only_trace)

text \<open>The errors of the node's client are not the firewall's own \<open>NodeError\<close>.\<close>

definition foreign_errors :: "'e node \<Rightarrow> bool" where
  "foreign_errors N \<longleftrightarrow> (\<forall>args x e y. node_TraceCall N args x = (Inl e, y) \<longrightarrow> as_node e = None)"

lemma trace_refusal:
  assumes "foreign_errors N"
  shows "(\<exists>e. trace N args w = (Err e, t) \<and> as_node e = Some msg) \<longleftrightarrow>
    (\<exists>e x code. node_TraceCall N args (w_ext w) = (Inl e, x) \<and> t = w\<lparr>w_ext := x\<rparr> \<and>
       as_rpc e = Some (code, msg) \<and> isTxRejection code)"
proof (cases "node_TraceCall N args (w_ext w)")
  case (Pair r x)
  show ?thesis
  proof (cases r)
    case (Inl e)
    with assms Pair have "as_node e = None" unfolding foreign_errors_def by blast
    with Pair Inl show ?thesis by (auto simp: trace_run split: option.splits)
  next
    case (Inr f)
    with Pair show ?thesis by (auto simp: trace_run)
  qed
qed

text \<open>
  C26. Simulating a transaction gives the trace the node returned for the transaction's sender,
  recipient, gas, value and input, and only a trace with a root frame. A refusal of the transaction
  is reported exactly for the JSON-RPC error codes -32000 and -32003, with the node's message; any
  other failure of the node is an ordinary error, never a refusal.
\<close>

theorem Simulate_outcomes:
  assumes "foreign_errors N"
  shows "(RPCSimulator_Simulate N tx w = (Ok f, t) \<longleftrightarrow>
      (\<exists>x. node_TraceCall N (newCallArgs tx) (w_ext w) = (Inr f, x) \<and> t = w\<lparr>w_ext := x\<rparr>) \<and>
      Call_Type f \<noteq> '''') \<and>
   ((\<exists>e. RPCSimulator_Simulate N tx w = (Err e, t) \<and> as_node e = Some msg) \<longleftrightarrow>
      (\<exists>e x. node_TraceCall N (newCallArgs tx) (w_ext w) = (Inl e, x) \<and> t = w\<lparr>w_ext := x\<rparr> \<and>
         (as_rpc e = Some (-32000, msg) \<or> as_rpc e = Some (-32003, msg))))"
  unfolding RPCSimulator_Simulate_def trace_Ok trace_refusal [OF assms] isTxRejection_def by auto

text \<open>A node that refuses every transaction.\<close>

definition refusing_node :: "unit node" where
  "refusing_node = (chain_node example_chain)
     \<lparr>node_TraceCall := (\<lambda>args e. (Inl (RPCError (-32000) ''insufficient funds''), e))\<rparr>"

theorem Simulate_outcomes_witness:
  "\<exists>e. RPCSimulator_Simulate refusing_node \<lparr>Decoded_Tx = \<lparr>Tx_To = None, Tx_Gas = 0, Tx_Value = 0,
       Tx_Data = [], Tx_Hash = 0, Tx_Type = 0, Tx_Nonce = 0, Tx_ChainId = 1\<rparr>, Decoded_From = 1\<rparr> example_world =
     (Err e, example_world) \<and> as_node e = Some ''insufficient funds''"
proof -
  have "foreign_errors refusing_node" by (simp add: foreign_errors_def refusing_node_def)
  note conjunct2 [OF Simulate_outcomes [OF this]]
  then show ?thesis by (simp add: refusing_node_def)
qed

end
