(* ===== verification/Screen.thy ===== *)
theory Screen
  imports Risk Simulate
begin

text \<open>
  Package \<open>internal/screen\<close>: the pipeline for one transaction, simulate, build the analysis, let the
  engine judge it. The simulator and the engine's rules are computations over the same state.
\<close>

record 's Screener =
  Screener_sim :: "Decoded \<Rightarrow> ('s, CallFrame) io"
  Screener_engine :: "'s Engine"

definition refused_verdict :: "string \<Rightarrow> Verdict" where
  "refused_verdict msg =
     \<lparr>Verdict_Block = True, Verdict_Score = 0,
      Verdict_Findings =
        [\<lparr>Finding_Rule = ''simulation'', Finding_HardBlock = True, Finding_Weight = 0,
          Finding_Reason = ''simulation failed: '' @ msg\<rparr>]\<rparr>"

definition Screener_Screen :: "geth \<Rightarrow> 's Screener \<Rightarrow> Decoded \<Rightarrow> ('s, Verdict) io" where
  "Screener_Screen G s tx =
     io_bind (io_try (Screener_sim s tx))
       (\<lambda>r. case r of
          Inl e \<Rightarrow>
            (case as_node e of
               Some msg \<Rightarrow> ret (refused_verdict msg)
             | None \<Rightarrow> throw e)
        | Inr frame \<Rightarrow>
            io_bind (or_panic (Build G tx (Some frame))) (Engine_Evaluate (Screener_engine s)))"

text \<open>How a verdict comes about.\<close>

lemma Screen_Ok:
  "Screener_Screen G s tx w = (Ok v, t) \<longleftrightarrow>
     (\<exists>e msg. Screener_sim s tx w = (Err e, t) \<and> as_node e = Some msg \<and> v = refused_verdict msg) \<or>
     (\<exists>f u a. Screener_sim s tx w = (Ok f, u) \<and> Build G tx (Some f) = Some a \<and>
        Engine_Evaluate (Screener_engine s) a u = (Ok v, t))"
proof (cases "Screener_sim s tx w")
  case (Pair q u)
  show ?thesis
    by (cases q) (auto simp: Screener_Screen_def io_bind_def io_try_def Pair ret_def throw_def or_panic_def
        split: option.splits prod.splits result.splits)
qed

text \<open>
  C5. A transaction passes the screening (a verdict that does not block) only after a complete
  check: the node returned a trace, the analysis of that trace was built, every rule ran on it and
  succeeded, none found a hard block and the score stayed below the threshold. If the node refused
  the transaction the verdict blocks.
\<close>

theorem Screen_pass_complete:
  assumes "Screener_Screen G s tx w = (Ok v, t)" and "\<not> Verdict_Block v"
  shows "\<exists>f u a fss. Screener_sim s tx w = (Ok f, u) \<and> Build G tx (Some f) = Some a \<and>
    all_run a (Engine_rules (Screener_engine s)) u fss t \<and> Verdict_Findings v = concat fss \<and>
    \<not> (\<exists>x \<in> set (concat fss). Finding_HardBlock x) \<and>
    wrap_int (\<Sum>x \<leftarrow> concat fss. Finding_Weight x) < Engine_threshold (Screener_engine s)"
proof -
  from assms obtain f u a where f: "Screener_sim s tx w = (Ok f, u)" "Build G tx (Some f) = Some a"
      "Engine_Evaluate (Screener_engine s) a u = (Ok v, t)"
    by (auto simp: Screen_Ok refused_verdict_def)
  then obtain fss where "all_run a (Engine_rules (Screener_engine s)) u fss t"
      "v = verdict_of (Engine_threshold (Screener_engine s)) (concat fss)"
    by (auto simp: Engine_Evaluate_Ok)
  with f assms(2) show ?thesis
    by (auto simp: verdict_of_def total_weight_def list_ex_iff not_le intro!: exI)
qed

text \<open>An engine with the deploy-and-call and privilege rules, over a simulator that returns the example trace.\<close>

definition example_screener :: "unit world Screener" where
  "example_screener =
     \<lparr>Screener_sim = (\<lambda>tx. ret example_trace),
      Screener_engine = \<lparr>Engine_rules = [NewPrivilegeChange geth_model], Engine_threshold = 50\<rparr>\<rparr>"

theorem Screen_pass_complete_witness:
  "\<exists>v t f u a fss. Screener_Screen geth_model example_screener example_tx example_world = (Ok v, t) \<and>
     \<not> Verdict_Block v \<and> Screener_sim example_screener example_tx example_world = (Ok f, u) \<and>
     all_run a (Engine_rules (Screener_engine example_screener)) u fss t"
proof -
  obtain a where a: "Build geth_model example_tx (Some example_trace) = Some a"
    using Build_defined by blast
  let ?fs = "privilege_report geth_model a"
  have run: "Screener_Screen geth_model example_screener example_tx example_world =
      (Ok (verdict_of 50 ?fs), example_world)"
    unfolding Screen_Ok
    using a by (auto simp: example_screener_def ret_def Engine_Evaluate_Ok all_run_simps NewPrivilegeChange_def
        PrivilegeChange_Evaluate_eq intro!: exI [of _ "[?fs]"])
  have "total_weight ?fs \<in> {0, 40}"
    using privilege.report_weight [of geth_model a] by (auto simp: total_weight_def)
  then have "\<not> Verdict_Block (verdict_of 50 ?fs)"
    using privilege.report_no_hard_block [of geth_model a] by (auto simp: verdict_of_def list_ex_iff)
  from Screen_pass_complete [OF run this] run this show ?thesis by blast
qed

end
