(* ===== verification/Proxy.thy ===== *)
theory Proxy
  imports Jsonrpc Screen
begin

text \<open>
  Package \<open>internal/proxy\<close>: the handler. It reads the body, parses it, screens every
  \<open>eth_sendRawTransaction\<close> of it in order and forwards the body unchanged only if all of them pass.
  The record logged for a transaction is \<open>logTransaction\<close>; the handler's other log calls are left out.
  What the node answers to a forwarded body is not part of the handler.
\<close>

definition maxBodySize :: nat where
  "maxBodySize = 5 * 2 ^ 20"

text \<open>
  \<open>io.ReadAll(http.MaxBytesReader(...))\<close>: a body is what the client sends and whether reading it ends
  without an error; a longer body than the limit is an error.
\<close>

definition read_body :: "string \<times> bool \<Rightarrow> string option" where
  "read_body b = (if snd b \<and> length (fst b) \<le> maxBodySize then Some (fst b) else None)"

text \<open>
  The record that \<open>logTransaction\<close> passes to the logger; a slice \<open>tx.Data()[:4]\<close> out of range would
  be a panic (\<open>None\<close>).
\<close>

datatype LogValue = LogString string | LogUint nat

definition log_selector :: "geth \<Rightarrow> byte list \<Rightarrow> string option" where
  "log_selector G data =
     (if length data \<ge> 4
      then do { sel \<leftarrow> subslice data 0 4; Some (hexutil_Encode G sel) }
      else Some ''none'')"

definition logTransaction :: "geth \<Rightarrow> Decoded \<Rightarrow> (string \<times> LogValue) list option" where
  "logTransaction G d =
     (let tx = Decoded_Tx d;
          to = (case Tx_To tx of None \<Rightarrow> ''contract creation'' | Some a \<Rightarrow> Address_Hex G a)
      in do {
        selector \<leftarrow> log_selector G (Tx_Data tx);
        Some [(''hash'', LogString (Hash_Hex G (Tx_Hash tx))),
          (''type'', LogUint (Tx_Type tx)),
          (''from'', LogString (Address_Hex G (Decoded_From d))),
          (''to'', LogString to),
          (''value'', LogString (show_int (Tx_Value tx))),
          (''selector'', LogString selector),
          (''nonce'', LogUint (unat (Tx_Nonce tx))),
          (''chainId'', LogString (show_int (Tx_ChainId tx)))]
      })"

text \<open>The loop over the requests: a response that ends the request, or \<open>None\<close> to go on.\<close>

fun screen_requests :: "geth \<Rightarrow> (Decoded \<Rightarrow> ('s, Verdict) io) \<Rightarrow> Request list \<Rightarrow> ('s, Response option) io" where
  "screen_requests G screener [] = ret None"
| "screen_requests G screener (req # reqs) =
     (if Request_Method req \<noteq> ''eth_sendRawTransaction'' then screen_requests G screener reqs
      else
        io_bind (or_panic (DecodeRawTransaction G (Request_Params req)))
          (\<lambda>decoded. case decoded of
             Inl e \<Rightarrow> ret (Some (WriteError (Request_ID req) CodeInvalidParams ''invalid transaction''))
           | Inr decoded_tx \<Rightarrow>
               io_bind (or_panic (logTransaction G decoded_tx)) (\<lambda>_.
               io_bind (io_try (screener decoded_tx))
                 (\<lambda>r. case r of
                    Inl e \<Rightarrow>
                      ret (Some (WriteError (Request_ID req) CodeTxRejected ''transaction rejected: screening failed''))
                  | Inr verdict \<Rightarrow>
                      (let reasons = map Finding_Reason (Verdict_Findings verdict)
                       in if Verdict_Block verdict
                          then ret (Some (WriteError (Request_ID req) CodeTxRejected
                                 (''transaction rejected: '' @ join ''; '' reasons)))
                          else screen_requests G screener reqs)))))"

definition handler :: "geth \<Rightarrow> (Decoded \<Rightarrow> ('s, Verdict) io) \<Rightarrow> string \<times> bool \<Rightarrow> ('s, Response) io" where
  "handler G screener b =
     (case read_body b of
        None \<Rightarrow> ret (HTTPError 400 ''request body too large or unreadable'')
      | Some body \<Rightarrow>
          io_bind (or_panic (ParseRequests body))
            (\<lambda>parsed. case parsed of
               Inl e \<Rightarrow> ret (WriteError [] CodeParseError ''invalid JSON-RPC request'')
             | Inr reqs \<Rightarrow>
                 io_bind (screen_requests G screener reqs)
                   (\<lambda>stop. case stop of Some resp \<Rightarrow> ret resp | None \<Rightarrow> ret (Forwarded body))))"

subsection \<open>The log record of a transaction\<close>

lemma logTransaction_defined: "\<exists>r. logTransaction G d = Some r"
  by (simp add: logTransaction_def log_selector_def Let_def)

lemma or_panic_log [simp]: "io_bind (or_panic (logTransaction G d)) (\<lambda>_. m) = m"
  using logTransaction_defined [of G d] by (auto simp: or_panic_Some)

text \<open>The sender can be read back from the record.\<close>

lemma logTransaction_sender:
  assumes "hex_ok G" and "logTransaction G d = Some record" and "map_of record ''from'' = Some (LogString s)"
  shows "HexToAddress G s = Decoded_From d"
  using assms hex_okD(4) [OF assms(1), of "Decoded_From d"]
  by (auto simp: logTransaction_def Let_def bind_eq_Some_conv)

subsection \<open>When a body is forwarded\<close>

text \<open>
  Every transaction of the requests was decoded, screened in order from state to state, and none was
  blocked.
\<close>

inductive all_passed :: "geth \<Rightarrow> (Decoded \<Rightarrow> ('s, Verdict) io) \<Rightarrow> Request list \<Rightarrow> 's \<Rightarrow> 's \<Rightarrow> bool"
  for G screener where
  none: "all_passed G screener [] s s"
| other: "Request_Method req \<noteq> ''eth_sendRawTransaction'' \<Longrightarrow> all_passed G screener reqs s t \<Longrightarrow>
    all_passed G screener (req # reqs) s t"
| passed: "Request_Method req = ''eth_sendRawTransaction'' \<Longrightarrow>
    DecodeRawTransaction G (Request_Params req) = Some (Inr tx) \<Longrightarrow>
    screener tx s = (Ok v, u) \<Longrightarrow> \<not> Verdict_Block v \<Longrightarrow>
    all_passed G screener reqs u t \<Longrightarrow> all_passed G screener (req # reqs) s t"

inductive_simps all_passed_simps:
  "all_passed G screener [] s t" "all_passed G screener (req # reqs) s t"

lemma screen_requests_None:
  "screen_requests G screener reqs s = (Ok None, t) \<longleftrightarrow> all_passed G screener reqs s t"
proof (induction reqs arbitrary: s)
  case Nil
  then show ?case by (auto simp: all_passed_simps)
next
  case (Cons req reqs)
  show ?case
  proof (cases "Request_Method req = ''eth_sendRawTransaction''")
    case False
    then show ?thesis by (simp add: all_passed_simps Cons.IH)
  next
    case True
    show ?thesis
    proof (cases "the (DecodeRawTransaction G (Request_Params req))")
      case (Inl e)
      then have "DecodeRawTransaction G (Request_Params req) = Some (Inl e)"
        using DecodeRawTransaction_defined [of G "Request_Params req"] by auto
      with True show ?thesis by (auto simp: all_passed_simps or_panic_Some ret_def)
    next
      case (Inr tx)
      then have tx: "DecodeRawTransaction G (Request_Params req) = Some (Inr tx)"
        using DecodeRawTransaction_defined [of G "Request_Params req"] by auto
      obtain q u where q: "screener tx s = (q, u)" by (cases "screener tx s")
      show ?thesis
        using True tx q Cons.IH
        by (cases q) (auto simp: all_passed_simps or_panic_Some io_bind_def io_try_def ret_def Let_def)
    qed
  qed
qed

lemma screen_requests_Forwarded: "screen_requests G screener reqs s \<noteq> (Ok (Some (Forwarded body)), t)"
proof (induction reqs arbitrary: s)
  case (Cons req reqs)
  then show ?case
    by (auto simp: io_bind_Ok_iff ret_def WriteError_def Let_def split: sum.split)
qed (simp add: ret_def)

lemma handler_Forwarded:
  "handler G screener b s = (Ok (Forwarded body), t) \<longleftrightarrow>
     (\<exists>reqs. b = (body, True) \<and> length body \<le> maxBodySize \<and> ParseRequests body = Some (Inr reqs) \<and>
        all_passed G screener reqs s t)"
proof (cases "read_body b")
  case None
  then show ?thesis by (cases b) (auto simp: handler_def read_body_def ret_def split: if_splits)
next
  case (Some body')
  then have b: "b = (body', True)" "length body' \<le> maxBodySize"
    by (cases b, auto simp: read_body_def split: if_splits)+
  show ?thesis
  proof (cases "the (ParseRequests body')")
    case (Inl e)
    then have "ParseRequests body' = Some (Inl e)" using ParseRequests_defined [of body'] by auto
    with Some b show ?thesis by (auto simp: handler_def or_panic_Some ret_def WriteError_def Let_def)
  next
    case (Inr reqs)
    then have "ParseRequests body' = Some (Inr reqs)" using ParseRequests_defined [of body'] by auto
    with Some b screen_requests_Forwarded [of G screener reqs s body] show ?thesis
      by (auto simp: handler_def or_panic_Some io_bind_Ok_iff screen_requests_None [symmetric] split: option.splits)
  qed
qed

text \<open>
  C2. The proxy is a reference monitor: a body reaches the node exactly when it was read completely
  and within the size limit, is a well-formed request or batch, and every \<open>eth_sendRawTransaction\<close> in
  it was decoded, screened without an error and not blocked, in order. Then it is forwarded unchanged.
  In every other case, screening failures included, nothing is forwarded.
\<close>

theorem handler_forwards_iff_passed:
  "handler G screener b s = (Ok (Forwarded body), t) \<longleftrightarrow>
     (\<exists>reqs. b = (body, True) \<and> length body \<le> 5242880 \<and> ParseRequests body = Some (Inr reqs) \<and>
        all_passed G screener reqs s t)"
  by (simp add: handler_Forwarded maxBodySize_def)

lemma screen_requests_skip:
  "all_passed G screener pre s u \<Longrightarrow> screen_requests G screener (pre @ reqs) s = screen_requests G screener reqs u"
proof (induction rule: all_passed.induct)
  case (passed req tx s v u reqs t)
  then show ?case by (simp add: or_panic_Some) (simp add: io_bind_def io_try_def Let_def)
qed simp_all

text \<open>The identifier of an error response: that of the request, or \<open>null\<close> when it has none.\<close>

definition echoed_id :: "Request \<Rightarrow> string" where
  "echoed_id req = (if Request_ID req = [] then ''null'' else Request_ID req)"

text \<open>
  C10. The first transaction of a request that does not pass decides the answer, whatever follows it
  in the batch: an undecodable one gives the error -32602, a failed screening -32003, and a blocked one
  -32003 with the reasons of its findings; the answer carries the identifier of that request.
\<close>

theorem handler_rejects:
  assumes "length body \<le> 5242880" and "ParseRequests body = Some (Inr (pre @ req # post))"
    and "all_passed G screener pre s u" and "Request_Method req = ''eth_sendRawTransaction''"
  shows "(\<forall>e. DecodeRawTransaction G (Request_Params req) = Some (Inl e) \<longrightarrow>
      handler G screener (body, True) s = (Ok (RPCErrorResponse (echoed_id req) (-32602) ''invalid transaction''), u)) \<and>
    (\<forall>tx e t. DecodeRawTransaction G (Request_Params req) = Some (Inr tx) \<longrightarrow> screener tx u = (Err e, t) \<longrightarrow>
      handler G screener (body, True) s =
        (Ok (RPCErrorResponse (echoed_id req) (-32003) ''transaction rejected: screening failed''), t)) \<and>
    (\<forall>tx v t. DecodeRawTransaction G (Request_Params req) = Some (Inr tx) \<longrightarrow> screener tx u = (Ok v, t) \<longrightarrow>
      Verdict_Block v \<longrightarrow>
      handler G screener (body, True) s =
        (Ok (RPCErrorResponse (echoed_id req) (-32003)
           (''transaction rejected: '' @ join ''; '' (map Finding_Reason (Verdict_Findings v)))), t))"
proof -
  have "handler G screener (body, True) s =
      io_bind (screen_requests G screener (pre @ req # post))
        (\<lambda>stop. case stop of Some resp \<Rightarrow> ret resp | None \<Rightarrow> ret (Forwarded body)) s"
    using assms(1,2) by (simp add: handler_def read_body_def maxBodySize_def or_panic_Some)
  then have "handler G screener (body, True) s =
      io_bind (screen_requests G screener (req # post))
        (\<lambda>stop. case stop of Some resp \<Rightarrow> ret resp | None \<Rightarrow> ret (Forwarded body)) u"
    by (simp add: io_bind_def screen_requests_skip [OF assms(3)])
  then show ?thesis
    using assms(4)
    by (auto simp: or_panic_Some) (auto simp: io_bind_def io_try_def ret_def Let_def WriteError_def echoed_id_def
        CodeInvalidParams_def CodeTxRejected_def)
qed

theorem handler_rejects_witness:
  "handler geth_model (\<lambda>tx. ret (refused_verdict ''no funds'')) (print_json (call_json example_call), True) () =
     (Ok (RPCErrorResponse ''0'' (-32003) ''transaction rejected: simulation failed: no funds''), ())"
proof -
  let ?req = "call_request example_call"
  have parse: "ParseRequests (print_json (call_json example_call)) = Some (Inr ([] @ ?req # []))"
    using ParseRequests_single [OF example_call_ok(1)] by simp
  have len: "length (print_json (call_json example_call)) \<le> 5242880"
    by (simp add: call_json_def member_def example_call_def quoted_def)
  have params: "parse_json (Request_Params ?req) = Some (JArray [JString ''0x02''])"
    unfolding call_request_def example_call_def
    by (simp add: parse_json_print plain_def maxNestingDepth_def del: print_json.simps)
  then obtain tx where tx: "DecodeRawTransaction geth_model (Request_Params ?req) = Some (Inr tx)"
    by (simp add: DecodeRawTransaction_def decode_strings_def store_string_def geth_model_def)
  have meth: "Request_Method ?req = ''eth_sendRawTransaction''"
    by (simp add: call_request_def example_call_def)
  from handler_rejects [OF len parse all_passed.none meth, of geth_model "\<lambda>tx. ret (refused_verdict ''no funds'')" "()"] tx
  show ?thesis
    by (simp add: ret_def refused_verdict_def echoed_id_def call_request_def example_call_def)
qed

end
