(* ===== verification/Strconv.thy ===== *)
theory Strconv
  imports Json
begin

text \<open>
  The parts of Go's \<open>strconv\<close> the configuration is read with: \<open>ParseUint(s, 10, 64)\<close> and \<open>Atoi\<close> on a
  64-bit platform. \<open>None\<close> is an error (not a number, or out of range).
\<close>

definition digits_value :: "string \<Rightarrow> nat" where
  "digits_value s = foldl (\<lambda>acc c. acc * 10 + ((of_char c :: nat) - 48)) 0 s"

definition ParseUint64 :: "string \<Rightarrow> uint64 option" where
  "ParseUint64 s =
     (if s \<noteq> [] \<and> list_all is_digit s \<and> digits_value s < 2 ^ 64 then Some (of_nat (digits_value s)) else None)"

definition Atoi :: "string \<Rightarrow> int option" where
  "Atoi s =
     (let neg = (s \<noteq> [] \<and> hd s = CHR ''-'');
          body = (if s \<noteq> [] \<and> (hd s = CHR ''-'' \<or> hd s = CHR ''+'') then tl s else s);
          n = int (digits_value body)
      in if body = [] \<or> \<not> list_all is_digit body then None
         else if neg then (if n \<le> 2 ^ 63 then Some (- n) else None)
         else if n < 2 ^ 63 then Some n else None)"

subsection \<open>Reading back what is printed\<close>

lemma digits_value_snoc: "digits_value (s @ [c]) = digits_value s * 10 + (of_char c - 48)"
  by (simp add: digits_value_def)

lemma digit_char:
  assumes "d < (10 :: nat)"
  shows "is_digit (char_of (48 + d))"
proof -
  have "\<forall>n \<in> set [0..<10]. is_digit (char_of (48 + n :: nat))" by code_simp
  with assms show ?thesis by simp
qed

lemma show_nat_digits: "digits_value (show_nat n) = n \<and> list_all is_digit (show_nat n)"
proof (induction n rule: show_nat.induct)
  case (1 n)
  show ?case
  proof (cases "n < 10")
    case True
    then show ?thesis
      by (subst (1 2) show_nat.simps) (simp add: digits_value_def digit_char)
  next
    case False
    with 1 have "digits_value (show_nat (n div 10)) = n div 10" "list_all is_digit (show_nat (n div 10))"
      by auto
    with False show ?thesis
      by (subst (1 2) show_nat.simps) (simp add: digits_value_snoc digit_char)
  qed
qed

lemma ParseUint64_show: "ParseUint64 (show_nat (unat x)) = Some x"
  using show_nat_digits [of "unat x"] unsigned_less [of x] by (simp add: ParseUint64_def)

lemma show_nat_hd: "is_digit (hd (show_nat n))"
  using show_nat_digits [of n] show_nat_nonempty [of n] by (cases "show_nat n") auto

lemma is_digit_sign: "is_digit c \<Longrightarrow> c \<noteq> CHR ''-'' \<and> c \<noteq> CHR ''+''"
  by (auto simp: is_digit_def)

lemma Atoi_show: "- (2 ^ 63) \<le> x \<Longrightarrow> x < 2 ^ 63 \<Longrightarrow> Atoi (show_int x) = Some x"
  using show_nat_digits [of "nat x"] show_nat_digits [of "nat (- x)"] is_digit_sign [OF show_nat_hd, of "nat x"]
  by (auto simp: Atoi_def show_int_def Let_def)

lemma Atoi_range: "Atoi s = Some x \<Longrightarrow> - (2 ^ 63) \<le> x \<and> x < 2 ^ 63"
  by (auto simp: Atoi_def Let_def split: if_splits)

lemma ParseUint64_exact: "ParseUint64 s = Some x \<Longrightarrow> unat x = digits_value s"
  by (auto simp: ParseUint64_def unat_of_nat take_bit_nat_eq_self split: if_splits)

end
