(* ===== verification/Logging.thy ===== *)
theory Logging
  imports Strconv
begin

text \<open>
  Package \<open>internal/logging\<close>: the logger from its configuration. A logger is the handler it writes
  with and its lowest level; \<open>tint\<close> is a handler like those of \<open>log/slog\<close>. The levels are read as
  \<open>slog.Level.UnmarshalText\<close> reads them: a name in any letter case and an optional offset.
\<close>

datatype LogHandler = TintHandler | TextHandler | JSONHandler

record Logger =
  Logger_handler :: LogHandler
  Logger_level :: int

datatype log_error = InvalidLevel string | InvalidFormat string

text \<open>
  \<open>strings.ToUpper\<close>, as far as a comparison with a name of ASCII letters can tell: the two other
  characters whose upper case is an ASCII letter are the dotless i and the long s.
\<close>

fun ToUpper :: "string \<Rightarrow> string" where
  "ToUpper [] = []"
| "ToUpper (c # s) =
     (if c = CHR 0xC4 \<and> s \<noteq> [] \<and> hd s = CHR 0xB1 then CHR ''I'' # ToUpper (tl s)
      else if c = CHR 0xC5 \<and> s \<noteq> [] \<and> hd s = CHR 0xBF then CHR ''S'' # ToUpper (tl s)
      else if in_range c 97 122 then char_of ((of_char c :: nat) - 32) # ToUpper s
      else c # ToUpper s)"

definition level_name :: "string \<Rightarrow> int option" where
  "level_name s =
     (if ToUpper s = ''DEBUG'' then Some (- 4)
      else if ToUpper s = ''INFO'' then Some 0
      else if ToUpper s = ''WARN'' then Some 4
      else if ToUpper s = ''ERROR'' then Some 8
      else None)"

definition is_sign :: "char \<Rightarrow> bool" where
  "is_sign c \<longleftrightarrow> c = CHR ''+'' \<or> c = CHR ''-''"

definition Level_UnmarshalText :: "string \<Rightarrow> int option" where
  "Level_UnmarshalText s =
     (let name = takeWhile (\<lambda>c. \<not> is_sign c) s; rest = dropWhile (\<lambda>c. \<not> is_sign c) s
      in case (if rest = [] then Some 0 else Atoi rest) of
           None \<Rightarrow> None
         | Some offset \<Rightarrow>
             (case level_name name of None \<Rightarrow> None | Some l \<Rightarrow> Some (wrap_int (l + offset))))"

definition Logging_New :: "string \<Rightarrow> string \<Rightarrow> log_error + Logger" where
  "Logging_New format level =
     (case Level_UnmarshalText level of
        None \<Rightarrow> Inl (InvalidLevel level)
      | Some lvl \<Rightarrow>
          if format = ''pretty'' then Inr \<lparr>Logger_handler = TintHandler, Logger_level = lvl\<rparr>
          else if format = ''text'' then Inr \<lparr>Logger_handler = TextHandler, Logger_level = lvl\<rparr>
          else if format = ''json'' then Inr \<lparr>Logger_handler = JSONHandler, Logger_level = lvl\<rparr>
          else Inl (InvalidFormat format))"

lemma ToUpper_sign: "c \<in> set s \<Longrightarrow> is_sign c \<Longrightarrow> c \<in> set (ToUpper s)"
proof (induction s rule: ToUpper.induct)
  case (2 d s)
  show ?case
  proof (cases "c = d")
    case True
    with "2.prems"(2) show ?thesis by (auto simp: is_sign_def in_range_def)
  next
    case False
    with "2.prems" have c: "c \<in> set s" "c \<noteq> CHR 0xB1" "c \<noteq> CHR 0xBF"
      by (auto simp: is_sign_def)
    then have "s \<noteq> [] \<and> (hd s = CHR 0xB1 \<or> hd s = CHR 0xBF) \<Longrightarrow> c \<in> set (tl s)"
      by (cases s) auto
    with 2 c(1) show ?thesis by auto
  qed
qed simp

text \<open>A name without an offset is read by itself.\<close>

lemma Level_UnmarshalText_name:
  assumes "ToUpper s \<in> {''DEBUG'', ''INFO'', ''WARN'', ''ERROR''}"
  shows "Level_UnmarshalText s = level_name s"
proof -
  have "\<not> is_sign c" if "c \<in> set s" for c
    using ToUpper_sign [OF that] assms by (auto simp: is_sign_def)
  then have name: "takeWhile (\<lambda>c. \<not> is_sign c) s = s" "dropWhile (\<lambda>c. \<not> is_sign c) s = []"
    by (simp_all add: takeWhile_eq_all_conv dropWhile_eq_Nil_conv)
  show ?thesis unfolding Level_UnmarshalText_def Let_def name by (auto simp: level_name_def)
qed

end
