(* ===== verification/Firewall.thy ===== *)
theory Firewall
  imports Proxy Logging
begin

text \<open>
  Program \<open>cmd/firewall\<close>: the configuration from the environment and the wiring of the parts. The
  operating system, the network and the clock are parameters: the environment, opening a file,
  connecting to an RPC address, whether a text is a full URL, and the time. A message followed by
  \<open>os.Exit(1)\<close> is an error. The timeouts of the HTTP server and of the connections are left out: a call
  that times out is an error of the node.
\<close>

subsection \<open>Wiring\<close>

definition oracleCacheTTL :: int where
  "oracleCacheTTL = 10 * 60 * 1000000000"

definition oracleCacheSize :: int where
  "oracleCacheSize = 100000"

definition freshnessCacheSize :: int where
  "freshnessCacheSize = 100000"

record 'e screenerConfig =
  cfg_sanctionsFile :: string
  cfg_oracleRPC :: string
  cfg_threshold :: int
  cfg_outflowPercent :: int
  cfg_simulator :: "Decoded \<Rightarrow> ('e world, CallFrame) io"
  cfg_freshness :: "'e CachedFreshness"
  cfg_balances :: "'e world BalanceReader"

record 'e system =
  sys_env :: "string \<Rightarrow> string"
  sys_full_url :: "string \<Rightarrow> bool"
  sys_open :: "string \<Rightarrow> err + string \<times> err option"
  sys_dial :: "string \<Rightarrow> 'e \<Rightarrow> (err + 'e node) \<times> 'e"
  sys_now :: "'e \<Rightarrow> int"

definition dialUpstream :: "'e system \<Rightarrow> string \<Rightarrow> ('e world, 'e node) io" where
  "dialUpstream sys rpcURL = ext_call (sys_dial sys rpcURL)"

definition newSimulator :: "'e node \<Rightarrow> ('e world, Decoded \<Rightarrow> ('e world, CallFrame) io) io" where
  "newSimulator client =
     io_bind (RPCSimulator_Verify client) (\<lambda>_. ret (RPCSimulator_Simulate client))"

definition newFreshness :: "geth \<Rightarrow> 'e node \<Rightarrow> uint64 \<Rightarrow> ('e world, 'e CachedFreshness) io" where
  "newFreshness G client window =
     (let f = \<lparr>rf_reader = client, rf_window = window\<rparr>
      in io_bind (on_err (\<lambda>e. Wrapped '''' e '' (set FRESH_CONTRACT_BLOCKS below the node's state history)'')
           (RPCFreshness_Verify f))
         (\<lambda>_. case NewCachedFreshness (RPCFreshness_Status G f) freshnessCacheSize of
                Inl e \<Rightarrow> throw e | Inr c \<Rightarrow> ret c))"

definition newOracle :: "geth \<Rightarrow> 'e system \<Rightarrow> string \<Rightarrow> ('e world, 'e OracleChecker) io" where
  "newOracle G sys rpcURL =
     io_bind (on_err (\<lambda>e. Wrapped ''SANCTIONS_ORACLE_RPC: '' e '''') (ext_call (sys_dial sys rpcURL)))
       (\<lambda>client.
          let c = \<lparr>oc_caller = client, oc_oracle = ChainalysisOracle G\<rparr>
          in io_bind (OracleChecker_Verify G c) (\<lambda>_. ret c))"

definition firewall_rules ::
  "geth \<Rightarrow> 's Checker \<Rightarrow> 's FreshnessChecker \<Rightarrow> 's StatusReader \<Rightarrow> 's OutflowDetector \<Rightarrow> 's Rule list" where
  "firewall_rules G checker fresh status outflows =
     [NewSanctioned G checker, NewPrivilegeChange G, NewDeployAndCall G, NewDelegatecallToFresh G fresh,
      NewUnlimitedApproval G fresh, NewNFTDrainer G status, NewLargeOutflow G outflows,
      NewFlashLoanOutflow G outflows]"

definition new_checkers ::
  "geth \<Rightarrow> 'e system \<Rightarrow> string \<Rightarrow> ListChecker \<Rightarrow> ('e world, 'e world Checker list) io" where
  "new_checkers G sys oracleRPC l =
     (if oracleRPC \<noteq> [] then
        io_bind (newOracle G sys oracleRPC)
          (\<lambda>c. ret ([ListChecker_IsSanctioned l] @
             [CachedChecker_IsSanctioned (NewCachedChecker (sys_now sys) (OracleChecker_IsSanctioned G c)
                oracleCacheTTL oracleCacheSize)]))
      else ret [ListChecker_IsSanctioned l])"

definition newScreener :: "geth \<Rightarrow> 'e system \<Rightarrow> 'e screenerConfig \<Rightarrow> ('e world, 'e world Screener) io" where
  "newScreener G sys cfg =
     (case LoadListChecker G (sys_open sys) (cfg_sanctionsFile cfg) of
        Inl e \<Rightarrow> throw e
      | Inr l \<Rightarrow>
          io_bind (new_checkers G sys (cfg_oracleRPC cfg) l)
            (\<lambda>checker.
               case NewOutflowDetector (CachedFreshness_Status (cfg_freshness cfg)) (cfg_balances cfg)
                      (cfg_outflowPercent cfg) of
                 Inl e \<Rightarrow> throw e
               | Inr outflows \<Rightarrow>
                   (case NewEngine (cfg_threshold cfg)
                      (firewall_rules G (AnyChecker_IsSanctioned checker)
                         (CachedFreshness_IsFreshContract (cfg_freshness cfg))
                         (CachedFreshness_Status (cfg_freshness cfg)) outflows) of
                      Inl e \<Rightarrow> throw e
                    | Inr engine \<Rightarrow>
                        ret \<lparr>Screener_sim = cfg_simulator cfg, Screener_engine = engine\<rparr>)))"

subsection \<open>main\<close>

definition getEnv :: "'e system \<Rightarrow> string \<Rightarrow> string \<Rightarrow> string" where
  "getEnv sys key fallback = (if sys_env sys key \<noteq> [] then sys_env sys key else fallback)"

definition mustGetEnv :: "'e system \<Rightarrow> string \<Rightarrow> ('s, string) io" where
  "mustGetEnv sys key =
     (if sys_env sys key = [] then throw (ErrText ''missing required environment variable'')
      else ret (sys_env sys key))"

definition require :: "'a option \<Rightarrow> string \<Rightarrow> ('s, 'a) io" where
  "require x msg = (case x of None \<Rightarrow> throw (ErrText msg) | Some v \<Rightarrow> ret v)"

text \<open>
  The server \<open>main\<close> starts: the address it listens on and the handler of a request (its bytes, and
  whether the connection delivers all of them).
\<close>

record 'e server =
  Server_Addr :: string
  Server_Handler :: "string \<times> bool \<Rightarrow> ('e world, Response) io"

definition main :: "geth \<Rightarrow> 'e system \<Rightarrow> ('e world, 'e server) io" where
  "main G sys =
     (case Logging_New (getEnv sys ''LOG_FORMAT'' ''pretty'') (getEnv sys ''LOG_LEVEL'' ''info'') of
        Inl e \<Rightarrow> throw (ErrText ''invalid log configuration'')
      | Inr logger \<Rightarrow>
     io_bind (mustGetEnv sys ''UPSTREAM_URL'') (\<lambda>upstreamURL.
     io_bind (mustGetEnv sys ''LISTEN_ADDR'') (\<lambda>listenAddr.
     io_bind (mustGetEnv sys ''SANCTIONS_FILE'') (\<lambda>sanctionsFile.
     if \<not> sys_full_url sys upstreamURL
     then throw (ErrText ''UPSTREAM_URL must be a full URL like http://host:port'')
     else
     io_bind (require (Atoi (getEnv sys ''RISK_THRESHOLD'' ''50'')) ''RISK_THRESHOLD must be an integer'') (\<lambda>threshold.
     io_bind (require (case ParseUint64 (getEnv sys ''FRESH_CONTRACT_BLOCKS'' ''7200'') of
                 None \<Rightarrow> None | Some n \<Rightarrow> if n = 0 then None else Some n)
        ''FRESH_CONTRACT_BLOCKS must be a positive integer'') (\<lambda>freshBlocks.
     io_bind (require (Atoi (getEnv sys ''LARGE_OUTFLOW_PERCENT'' ''50'')) ''LARGE_OUTFLOW_PERCENT must be an integer'')
       (\<lambda>outflowPercent.
     io_bind (dialUpstream sys upstreamURL) (\<lambda>client.
     io_bind (newSimulator client) (\<lambda>sim.
     io_bind (newFreshness G client freshBlocks) (\<lambda>freshness.
     io_bind (newScreener G sys
        \<lparr>cfg_sanctionsFile = sanctionsFile, cfg_oracleRPC = sys_env sys ''SANCTIONS_ORACLE_RPC'',
         cfg_threshold = threshold, cfg_outflowPercent = outflowPercent, cfg_simulator = sim,
         cfg_freshness = freshness,
         cfg_balances = (\<lambda>k. RPCBalances_Balance G client (fst k) (snd k))\<rparr>)
       (\<lambda>screener. ret \<lparr>Server_Addr = listenAddr,
          Server_Handler = handler G (Screener_Screen G screener)\<rparr>)))))))))))"

subsection \<open>What the lookups of the firewall know\<close>

text \<open>
  The oracle's connection and the chain behind it, if the oracle is enabled. \<open>screening_inv\<close>: the
  upstream node serves the chain \<open>ch\<close> and its JSON-RPC errors on \<open>eth_call\<close> are reverts, the oracle's
  node serves its chain, the caches agree with both.
\<close>

type_synonym 'e orac = "('e node \<times> chain) option"

text \<open>The oracle is enabled and did not answer that \<open>a\<close> is clean: it reports \<open>a\<close> or gives no answer.\<close>

definition not_cleared :: "geth \<Rightarrow> 'e orac \<Rightarrow> address \<Rightarrow> bool" where
  "not_cleared G orac a \<longleftrightarrow>
     (case orac of None \<Rightarrow> False
      | Some (oN, och) \<Rightarrow> oracle_answer G och (ChainalysisOracle G) a \<noteq> Some False)"

definition oracle_inv :: "geth \<Rightarrow> 'e orac \<Rightarrow> ('e \<Rightarrow> bool) \<Rightarrow> (address \<rightharpoonup> cacheEntry) \<Rightarrow> bool" where
  "oracle_inv G orac I E \<longleftrightarrow>
     (case orac of None \<Rightarrow> True
      | Some (oN, och) \<Rightarrow> serves oN och I \<and> entries_true (oracle_answer G och (ChainalysisOracle G)) E)"

definition all_established :: "'e RPCFreshness \<Rightarrow> chain \<Rightarrow> address set \<Rightarrow> bool" where
  "all_established rf ch known \<longleftrightarrow> (\<forall>a \<in> known. status_of ch (rf_window rf) a = Established)"

definition screening_inv ::
  "geth \<Rightarrow> 'e RPCFreshness \<Rightarrow> chain \<Rightarrow> 'e orac \<Rightarrow> ('e \<Rightarrow> bool) \<Rightarrow> 'e world \<Rightarrow> bool" where
  "screening_inv G rf ch orac I w \<longleftrightarrow>
     serves (rf_reader rf) ch I \<and> errors_revert (rf_reader rf) ch I \<and> I (w_ext w) \<and>
     oracle_inv G orac I (w_entries w) \<and> all_established rf ch (w_known w)"

definition sanctioned_by :: "geth \<Rightarrow> ListChecker \<Rightarrow> 'e orac \<Rightarrow> address \<Rightarrow> bool" where
  "sanctioned_by G l orac a \<longleftrightarrow> a \<in> lc_set l \<or> not_cleared G orac a"

definition wired_checkers :: "geth \<Rightarrow> ('e \<Rightarrow> int) \<Rightarrow> ListChecker \<Rightarrow> 'e orac \<Rightarrow> 'e world Checker list" where
  "wired_checkers G clock l orac =
     [ListChecker_IsSanctioned l] @
     (case orac of None \<Rightarrow> []
      | Some (oN, och) \<Rightarrow>
          [CachedChecker_IsSanctioned (NewCachedChecker clock
             (OracleChecker_IsSanctioned G \<lparr>oc_caller = oN, oc_oracle = ChainalysisOracle G\<rparr>)
             oracleCacheTTL oracleCacheSize)])"

abbreviation age_cache :: "geth \<Rightarrow> 'e RPCFreshness \<Rightarrow> 'e CachedFreshness" where
  "age_cache G rf \<equiv> \<lparr>cf_next = RPCFreshness_Status G rf, cf_maxEntries = freshnessCacheSize\<rparr>"

abbreviation balance_reader :: "geth \<Rightarrow> 'e RPCFreshness \<Rightarrow> 'e world BalanceReader" where
  "balance_reader G rf \<equiv> (\<lambda>k. RPCBalances_Balance G (rf_reader rf) (fst k) (snd k))"

lemma screening_inv_cases:
  "screening_inv G rf ch orac I =
     (\<lambda>w. rf_inv rf ch I (\<lambda>_ E. errors_revert (rf_reader rf) ch I \<and> oracle_inv G orac I E) w \<and>
        (\<forall>a \<in> w_known w. status_of ch (rf_window rf) a = Established))"
  "screening_inv G rf ch orac I =
     rf_inv rf ch I (\<lambda>k E. errors_revert (rf_reader rf) ch I \<and> oracle_inv G orac I E \<and> all_established rf ch k)"
  "screening_inv G rf ch (Some (oN, och)) I =
     (\<lambda>w. rf_inv rf ch I (\<lambda>k e. serves oN och I \<and> errors_revert (rf_reader rf) ch I \<and> all_established rf ch k) w \<and>
        entries_true (oracle_answer G och (ChainalysisOracle G)) (w_entries w))"
  by (auto simp: screening_inv_def rf_inv_def oracle_inv_def all_established_def fun_eq_iff)

lemma status_lookup:
  "lookup_service (CachedFreshness_Status (age_cache G rf)) (screening_inv G rf ch orac I) (status_of ch (rf_window rf))"
  unfolding screening_inv_cases(1) by (rule cf.cached.lookup_service_axioms)

lemma fresh_lookup:
  "lookup_service (CachedFreshness_IsFreshContract (age_cache G rf)) (screening_inv G rf ch orac I)
     (\<lambda>a. status_of ch (rf_window rf) a = Fresh)"
  unfolding screening_inv_cases(1) by (rule cf_fresh.lookup_service_axioms)

lemma balance_lookup:
  "lookup_service (balance_reader G rf) (screening_inv G rf ch orac I) (balance_of G ch)"
  unfolding screening_inv_cases(2) by (rule rb.lookup_service_axioms)

interpretation wired: checkers "wired_checkers G clock l orac" "screening_inv G rf ch orac I"
  "[\<lambda>a. Some (a \<in> lc_set l)] @
   (case orac of None \<Rightarrow> [] | Some (oN, och) \<Rightarrow> [oracle_answer G och (ChainalysisOracle G)])"
  for G clock l orac rf ch I
proof (unfold_locales, cases orac)
  case None
  then show "list_all2 (\<lambda>c answer. partial_lookup c (screening_inv G rf ch orac I) answer)
      (wired_checkers G clock l orac)
      ([\<lambda>a. Some (a \<in> lc_set l)] @
       (case orac of None \<Rightarrow> [] | Some (oN, och) \<Rightarrow> [oracle_answer G och (ChainalysisOracle G)]))"
    using list_answer.partial_lookup_axioms by (simp add: wired_checkers_def)
next
  case (Some o')
  obtain oN och where o': "o' = (oN, och)" by (cases o')
  show "list_all2 (\<lambda>c answer. partial_lookup c (screening_inv G rf ch orac I) answer)
      (wired_checkers G clock l orac)
      ([\<lambda>a. Some (a \<in> lc_set l)] @
       (case orac of None \<Rightarrow> [] | Some (oN, och) \<Rightarrow> [oracle_answer G och (ChainalysisOracle G)]))"
    unfolding Some o' wired_checkers_def screening_inv_cases(3) option.case prod.case append_Cons append_Nil
    by (rule both.each)
qed

text \<open>An address for which there is no answer counts as sanctioned: the check then fails.\<close>

lemma sanctions_lookup:
  "lookup_service (AnyChecker_IsSanctioned (wired_checkers G clock l orac)) (screening_inv G rf ch orac I)
     (sanctioned_by G l orac)"
proof -
  have "(\<lambda>a. case any_answer ([\<lambda>a. Some (a \<in> lc_set l)] @
        (case orac of None \<Rightarrow> [] | Some (oN, och) \<Rightarrow> [oracle_answer G och (ChainalysisOracle G)])) a of
      Some v \<Rightarrow> v | None \<Rightarrow> True) = sanctioned_by G l orac"
    by (auto simp: sanctioned_by_def not_cleared_def fun_eq_iff split: option.splits bool.splits)
  then show ?thesis using wired.any.completed [of G clock l orac rf ch I True] by simp
qed

subsection \<open>The verdict of the wired engine\<close>

definition firewall_reports ::
  "geth \<Rightarrow> (address \<Rightarrow> bool) \<Rightarrow> (address \<Rightarrow> Status) \<Rightarrow> (address \<times> address \<Rightarrow> int option) \<Rightarrow> int \<Rightarrow>
   (Analysis \<Rightarrow> Finding list) list" where
  "firewall_reports G sanctioned age bal percent =
     [\<lambda>a. map (sanctioned_finding G) (filter sanctioned (Analysis_Addresses a)),
      privilege_report G,
      deploy_report G,
      \<lambda>a. listed ''delegatecall-to-fresh-code'' 20 ''delegatecall into recently deployed code: ''
        (map (Address_Hex G) (fresh_targets a (\<lambda>x. age x = Fresh))),
      \<lambda>a. listed ''unlimited-approval-to-fresh-contract'' 20
        ''unlimited approval to recently deployed contract: ''
        (map (approval_text G) (fresh_approvals a (\<lambda>x. age x = Fresh))),
      \<lambda>a. listed ''nft-drainer'' 20 ''approval for all NFTs: ''
        (map (\<lambda>ap. grant_text G (kind_in a age (ApprovalForAll_Operator ap)) ap) (risky_grants a age)),
      report_large G age bal percent,
      report_flash G age bal percent]"

definition firewall_findings ::
  "geth \<Rightarrow> (address \<Rightarrow> bool) \<Rightarrow> (address \<Rightarrow> Status) \<Rightarrow> (address \<times> address \<Rightarrow> int option) \<Rightarrow> int \<Rightarrow>
   Analysis \<Rightarrow> Finding list" where
  "firewall_findings G sanctioned age bal percent a =
     concat (map (\<lambda>rep. rep a) (firewall_reports G sanctioned age bal percent))"

abbreviation detector_of :: "geth \<Rightarrow> 'e RPCFreshness \<Rightarrow> int \<Rightarrow> 'e world OutflowDetector" where
  "detector_of G rf percent \<equiv>
     \<lparr>od_status = CachedFreshness_Status (age_cache G rf), od_balances = balance_reader G rf, od_percent = percent\<rparr>"

abbreviation wired_rules ::
  "geth \<Rightarrow> ('e \<Rightarrow> int) \<Rightarrow> ListChecker \<Rightarrow> 'e orac \<Rightarrow> 'e RPCFreshness \<Rightarrow> int \<Rightarrow> 'e world Rule list" where
  "wired_rules G clock l orac rf percent \<equiv>
     firewall_rules G (AnyChecker_IsSanctioned (wired_checkers G clock l orac))
       (CachedFreshness_IsFreshContract (age_cache G rf)) (CachedFreshness_Status (age_cache G rf))
       (detector_of G rf percent)"

interpretation fw: rules_engine "wired_rules G clock l orac rf percent" "screening_inv G rf ch orac I"
  "firewall_reports G (sanctioned_by G l orac) (status_of ch (rf_window rf)) (balance_of G ch) percent"
  for G clock l orac rf percent ch I
proof unfold_locales
  note outflow = outflow_client.intro [OF status_lookup balance_lookup]
  show "list_all2 (\<lambda>r report. rule r (screening_inv G rf ch orac I) report)
      (wired_rules G clock l orac rf percent)
      (firewall_reports G (sanctioned_by G l orac) (status_of ch (rf_window rf)) (balance_of G ch) percent)"
    unfolding firewall_rules_def firewall_reports_def WeightMedium_def [symmetric]
    by (intro list_all2_Cons [THEN iffD2] list_all2_Nil [THEN iffD2] conjI refl
        sanctions_client.sanctioned_rule [OF sanctions_client.intro [OF sanctions_lookup]]
        privilege.rule_axioms deploy.rule_axioms
        freshness_client.delegatecall_rule [OF freshness_client.intro [OF fresh_lookup]]
        freshness_client.approval_rule [OF freshness_client.intro [OF fresh_lookup]]
        status_client.nft_rule [OF status_client.intro [OF status_lookup]]
        outflow_client.large_rule [OF outflow] outflow_client.flash_rule [OF outflow])
qed

lemma total_weight_append: "total_weight (xs @ ys) = total_weight xs + total_weight ys"
  by (simp add: total_weight_def)

lemma total_weight_listed: "total_weight (listed n w i ts) = (if ts = [] then 0 else w)"
  by (simp add: listed_def total_weight_def one_finding_def)

lemma total_weight_sanctioned: "total_weight (map (sanctioned_finding G) xs) = 0"
  by (induction xs) (simp_all add: total_weight_def sanctioned_finding_def)

lemma listed_no_hard: "\<not> list_ex Finding_HardBlock (listed n w i ts)"
  by (simp add: listed_def one_finding_def)

text \<open>Four rules of the medium weight and three of the high one add up to 200 at most.\<close>

lemma firewall_weight:
  "0 \<le> total_weight (firewall_findings G sanctioned age bal percent a) \<and>
   total_weight (firewall_findings G sanctioned age bal percent a) \<le> 200"
proof -
  have "total_weight (privilege_report G a) \<in> {0, 40}"
    using privilege.report_weight [of G a] by (auto simp: total_weight_def)
  moreover have "total_weight (deploy_report G a) \<in> {0, 20}"
    using deploy.report_weight [of G a] by (auto simp: total_weight_def)
  ultimately show ?thesis
    by (auto simp: firewall_findings_def firewall_reports_def total_weight_append total_weight_sanctioned
        total_weight_listed report_large_def report_flash_def WeightHigh_def WeightMedium_def)
qed

lemma firewall_hard_block:
  "list_ex Finding_HardBlock (firewall_findings G sanctioned age bal percent a) \<longleftrightarrow>
     (\<exists>x \<in> set (Analysis_Addresses a). sanctioned x)"
  using privilege.report_no_hard_block [of G a] deploy.report_no_hard_block [of G a]
  by (auto simp: firewall_findings_def firewall_reports_def listed_no_hard report_large_def report_flash_def
      list_ex_iff [of _ "privilege_report G a"] list_ex_iff [of _ "deploy_report G a"]
      list_ex_iff [of _ "map _ _"] sanctioned_finding_def)

lemma wrap_firewall_weight:
  "wrap_int (total_weight (firewall_findings G sanctioned age bal percent a)) =
     total_weight (firewall_findings G sanctioned age bal percent a)"
  using firewall_weight [of G sanctioned age bal percent a] by (intro wrap_int_id) auto

definition firewall_screener ::
  "geth \<Rightarrow> ('e \<Rightarrow> int) \<Rightarrow> ListChecker \<Rightarrow> 'e orac \<Rightarrow> 'e RPCFreshness \<Rightarrow> int \<Rightarrow> int \<Rightarrow> 'e world Screener" where
  "firewall_screener G clock l orac rf percent threshold =
     \<lparr>Screener_sim = RPCSimulator_Simulate (rf_reader rf),
      Screener_engine = \<lparr>Engine_rules = wired_rules G clock l orac rf percent, Engine_threshold = threshold\<rparr>\<rparr>"

text \<open>
  C3. The engine of the firewall, with its eight rules: while the node and the oracle answer from one
  state of their chains, an evaluation that succeeds blocks exactly when an address of the transaction
  is sanctioned or the weights of the other findings add up to the threshold. The score is the exact
  sum, between 0 and 200, so it never overflows. A failed lookup gives no verdict, and the state keeps
  its invariant.
\<close>

theorem firewall_verdict_correct:
  assumes "screening_inv G rf ch orac I w"
    and "Engine_Evaluate (Screener_engine (firewall_screener G clock l orac rf percent threshold)) a w = (r, t)"
  defines "fs \<equiv> firewall_findings G (sanctioned_by G l orac) (status_of ch (rf_window rf)) (balance_of G ch) percent a"
  shows "screening_inv G rf ch orac I t \<and>
    ((\<exists>v. r = Ok v \<and> Verdict_Findings v = fs \<and> Verdict_Score v = (\<Sum>f \<leftarrow> fs. Finding_Weight f) \<and>
        0 \<le> Verdict_Score v \<and> Verdict_Score v \<le> 200 \<and>
        (Verdict_Block v \<longleftrightarrow> (\<exists>x \<in> set (Analysis_Addresses a). sanctioned_by G l orac x) \<or>
           threshold \<le> Verdict_Score v)) \<or> (\<exists>e. r = Err e))"
proof -
  note s = safeD [OF fw.engine_safe assms(1), of clock l percent threshold a]
  note run = assms(2) [unfolded firewall_screener_def Screener.simps]
  have v: "verdict_of threshold fs =
      \<lparr>Verdict_Block = ((\<exists>x \<in> set (Analysis_Addresses a). sanctioned_by G l orac x) \<or> threshold \<le> total_weight fs),
       Verdict_Score = total_weight fs, Verdict_Findings = fs\<rparr>"
    by (simp add: verdict_of_def fs_def firewall_hard_block wrap_firewall_weight)
  have "0 \<le> total_weight fs" "total_weight fs \<le> 200"
    using firewall_weight by (auto simp: fs_def)
  moreover have "r = Ok (verdict_of threshold fs) \<or> (\<exists>e. r = Err e)"
    using s(2,3) run by (cases r) (auto simp: fs_def firewall_findings_def)
  ultimately show ?thesis
    using s(1) [OF run] v by (auto simp: total_weight_def)
qed

text \<open>The example chain and node, without an oracle.\<close>

lemma example_screening: "screening_inv geth_model example_reader example_chain None (\<lambda>_. True) example_world"
  by (simp add: screening_inv_def oracle_inv_def all_established_def example_world_def example_reader_def
      chain_node_serves chain_node_errors)

theorem firewall_verdict_correct_witness:
  "\<exists>r t. Engine_Evaluate (Screener_engine (firewall_screener geth_model (\<lambda>_. 0) (NewListChecker [2]) None
        example_reader 50 50)) (FromTx example_tx) example_world = (r, t) \<and>
     ((\<exists>v. r = Ok v \<and> Verdict_Block v) \<or> (\<exists>e. r = Err e))"
proof -
  let ?run = "Engine_Evaluate (Screener_engine (firewall_screener geth_model (\<lambda>_. 0) (NewListChecker [2]) None
        example_reader 50 50)) (FromTx example_tx) example_world"
  obtain r t where rt: "?run = (r, t)" by (cases ?run)
  have "\<exists>x \<in> set (Analysis_Addresses (FromTx example_tx)). sanctioned_by geth_model (NewListChecker [2]) None x"
    by (simp add: FromTx_def example_tx_def sanctioned_by_def)
  with firewall_verdict_correct [OF example_screening rt] rt show ?thesis by blast
qed

subsection \<open>Screening keeps the invariant\<close>

text \<open>The node's answers to \<open>debug_traceCall\<close>, when it gives one, are the traces \<open>tr\<close>.\<close>

definition traces :: "'e node \<Rightarrow> ('e \<Rightarrow> bool) \<Rightarrow> (callArgs \<Rightarrow> CallFrame) \<Rightarrow> bool" where
  "traces N I tr \<longleftrightarrow> (\<forall>args. answers (node_TraceCall N args) I (tr args))"

lemma screening_inv_ext:
  "screening_inv G rf ch orac I w \<Longrightarrow> I x \<Longrightarrow> screening_inv G rf ch orac I (w\<lparr>w_ext := x\<rparr>)"
  by (simp add: screening_inv_def)

lemma safe_simulate:
  assumes "traces (rf_reader rf) I tr"
  shows "safe (screening_inv G rf ch orac I) (RPCSimulator_Simulate (rf_reader rf) tx) (\<lambda>f. f = tr (newCallArgs tx))"
  unfolding safe_def
proof (intro allI impI)
  fix w q t
  assume w: "screening_inv G rf ch orac I w" and run: "RPCSimulator_Simulate (rf_reader rf) tx w = (q, t)"
  obtain y x where y: "node_TraceCall (rf_reader rf) (newCallArgs tx) (w_ext w) = (y, x)"
    by (cases "node_TraceCall (rf_reader rf) (newCallArgs tx) (w_ext w)")
  have "I x \<and> (\<forall>v. y = Inr v \<longrightarrow> v = tr (newCallArgs tx))"
    using assms w y by (auto simp: traces_def answers_def screening_inv_def)
  then show "screening_inv G rf ch orac I t \<and> q \<noteq> Panic \<and> (\<forall>v. q = Ok v \<longrightarrow> v = tr (newCallArgs tx))"
    using run w unfolding RPCSimulator_Simulate_def trace_run [OF y]
    by (auto simp: screening_inv_ext split: sum.splits option.splits if_splits)
qed

text \<open>What a verdict of the whole pipeline says.\<close>

definition screened ::
  "geth \<Rightarrow> ListChecker \<Rightarrow> 'e orac \<Rightarrow> 'e RPCFreshness \<Rightarrow> chain \<Rightarrow> (callArgs \<Rightarrow> CallFrame) \<Rightarrow> int \<Rightarrow> int \<Rightarrow>
   Decoded \<Rightarrow> Verdict \<Rightarrow> bool" where
  "screened G l orac rf ch tr percent threshold tx v \<longleftrightarrow>
     (\<exists>msg. v = refused_verdict msg) \<or>
     (\<exists>a. Build G tx (Some (tr (newCallArgs tx))) = Some a \<and>
        v = verdict_of threshold (firewall_findings G (sanctioned_by G l orac) (status_of ch (rf_window rf))
              (balance_of G ch) percent a))"

lemma screen_safe:
  assumes "traces (rf_reader rf) I tr"
  shows "safe (screening_inv G rf ch orac I)
    (Screener_Screen G (firewall_screener G clock l orac rf percent threshold) tx)
    (screened G l orac rf ch tr percent threshold tx)"
proof -
  let ?P = "screening_inv G rf ch orac I"
  let ?Q = "screened G l orac rf ch tr percent threshold tx"
  let ?e = "\<lparr>Engine_rules = wired_rules G clock l orac rf percent, Engine_threshold = threshold\<rparr>"
  obtain a where a: "Build G tx (Some (tr (newCallArgs tx))) = Some a"
    using Build_defined by blast
  have eng: "safe ?P (Engine_Evaluate ?e a) ?Q"
    using a by (intro safe_weaken [OF fw.engine_safe]) (auto simp: screened_def firewall_findings_def)
  have "safe ?P (case r of
        Inl e \<Rightarrow> (case as_node e of Some msg \<Rightarrow> ret (refused_verdict msg) | None \<Rightarrow> throw e)
      | Inr frame \<Rightarrow> io_bind (or_panic (Build G tx (Some frame))) (Engine_Evaluate ?e)) ?Q"
    if "case r of Inl e \<Rightarrow> True | Inr f \<Rightarrow> f = tr (newCallArgs tx)" for r
    using that eng a
    by (auto simp: or_panic_Some screened_def intro!: safe_ret safe_throw split: sum.splits option.splits)
  then show ?thesis
    unfolding Screener_Screen_def firewall_screener_def Screener.simps
    by (rule safe_bind [OF safe_try [OF safe_simulate [OF assms]]])
qed

subsection \<open>Requests\<close>

text \<open>A transaction that may pass: nobody sanctioned takes part, and the score is below the threshold.\<close>

definition clean ::
  "geth \<Rightarrow> ListChecker \<Rightarrow> 'e orac \<Rightarrow> 'e RPCFreshness \<Rightarrow> chain \<Rightarrow> (callArgs \<Rightarrow> CallFrame) \<Rightarrow> int \<Rightarrow> int \<Rightarrow> Decoded \<Rightarrow> bool" where
  "clean G l orac rf ch tr percent threshold tx \<longleftrightarrow>
     (\<exists>a. Build G tx (Some (tr (newCallArgs tx))) = Some a \<and>
        \<not> (\<exists>x \<in> set (Analysis_Addresses a). sanctioned_by G l orac x) \<and>
        total_weight (firewall_findings G (sanctioned_by G l orac) (status_of ch (rf_window rf))
          (balance_of G ch) percent a) < threshold)"

lemma screened_clean:
  assumes "screened G l orac rf ch tr percent threshold tx v" and "\<not> Verdict_Block v"
  shows "clean G l orac rf ch tr percent threshold tx"
  using assms
  by (auto simp: screened_def clean_def refused_verdict_def verdict_of_def firewall_hard_block wrap_firewall_weight)

lemma all_passed_clean:
  assumes "traces (rf_reader rf) I tr"
    and "all_passed G (Screener_Screen G (firewall_screener G clock l orac rf percent threshold)) reqs w t"
    and "screening_inv G rf ch orac I w"
  shows "\<forall>req \<in> set reqs. Request_Method req = ''eth_sendRawTransaction'' \<longrightarrow>
    (\<exists>tx. DecodeRawTransaction G (Request_Params req) = Some (Inr tx) \<and> clean G l orac rf ch tr percent threshold tx)"
  using assms(2,3)
proof (induction rule: all_passed.induct)
  case (none s)
  then show ?case by simp
next
  case (other req reqs s t)
  then show ?case by simp
next
  case (passed req tx s v u reqs t)
  note s = safeD [OF screen_safe [OF assms(1)] passed.prems]
  have "clean G l orac rf ch tr percent threshold tx"
    using screened_clean [OF s(2) [OF passed.hyps(3)] passed.hyps(4)] .
  with passed s(1) [OF passed.hyps(3)] show ?case by simp
qed

text \<open>The loop over requests and the handler answer every request and keep the invariant.\<close>

lemma safe_or_panic:
  "x = Some v \<Longrightarrow> safe P (k v) Q \<Longrightarrow> safe P (io_bind (or_panic x) k) Q"
  by (simp add: or_panic_Some)

lemma screen_requests_answers:
  assumes "\<And>tx. safe P (screener tx) (Q tx)"
  shows "safe P (screen_requests G screener reqs) (\<lambda>_. True)"
proof (induction reqs)
  case Nil
  then show ?case by (simp add: safe_ret)
next
  case (Cons req reqs)
  have "safe P (case r of
        Inl e \<Rightarrow> ret (Some (WriteError (Request_ID req) CodeTxRejected ''transaction rejected: screening failed''))
      | Inr verdict \<Rightarrow>
          (let reasons = map Finding_Reason (Verdict_Findings verdict)
           in if Verdict_Block verdict
              then ret (Some (WriteError (Request_ID req) CodeTxRejected
                     (''transaction rejected: '' @ join ''; '' reasons)))
              else screen_requests G screener reqs)) (\<lambda>_. True)" for r
    using Cons by (auto simp: Let_def intro: safe_ret split: sum.split)
  moreover obtain d where "DecodeRawTransaction G (Request_Params req) = Some d"
    using DecodeRawTransaction_defined by blast
  ultimately show ?case
    using Cons by (auto intro!: safe_ret safe_or_panic safe_bind [OF safe_try [OF assms]] split: sum.split)
qed

lemma handler_answers:
  assumes "\<And>tx. safe P (screener tx) (Q tx)"
  shows "safe P (handler G screener b) (\<lambda>_. True)"
proof (cases "read_body b")
  case (Some body)
  obtain d where "ParseRequests body = Some d" using ParseRequests_defined by blast
  with Some show ?thesis
    by (auto simp: handler_def intro!: safe_ret safe_or_panic
        safe_bind [OF screen_requests_answers [OF assms]] split: option.split sum.split)
qed (simp add: handler_def safe_ret)

lemma screen_requests_no_error: "screen_requests G screener reqs s \<noteq> (Err e, t)"
proof (induction reqs arbitrary: s)
  case (Cons req reqs)
  then show ?case by (auto simp: io_bind_Err_iff Let_def split: sum.split)
qed simp

lemma handler_no_error: "handler G screener b s \<noteq> (Err e, t)"
  by (auto simp: handler_def io_bind_Err_iff screen_requests_no_error split: option.split sum.split)

text \<open>
  C9. Screening keeps what it relies on: while the node and the oracle answer from one state of their
  chains or fail, and the node's simulations are those of one function of the transaction, every
  request leaves a state whose caches agree with the chains, so the next request is screened truthfully
  too.
\<close>

theorem screening_keeps_invariant:
  assumes "screening_inv G rf ch orac I w" and "traces (rf_reader rf) I tr"
    and "handler G (Screener_Screen G (firewall_screener G clock l orac rf percent threshold)) b w = (r, t)"
  shows "screening_inv G rf ch orac I t"
proof -
  have "safe (screening_inv G rf ch orac I)
      (handler G (Screener_Screen G (firewall_screener G clock l orac rf percent threshold)) b) (\<lambda>_. True)"
    by (rule handler_answers) (rule screen_safe [OF assms(2)])
  from safeD(1) [OF this assms(1,3)] show ?thesis .
qed

text \<open>A node that serves the example chain and answers every simulation with the example trace.\<close>

definition tracing_node :: "unit node" where
  "tracing_node = (chain_node example_chain)\<lparr>node_TraceCall := (\<lambda>args e. (Inr example_trace, e))\<rparr>"

definition tracing_reader :: "unit RPCFreshness" where
  "tracing_reader = \<lparr>rf_reader = tracing_node, rf_window = 7200\<rparr>"

lemma tracing_screening:
  "screening_inv geth_model tracing_reader example_chain None (\<lambda>_. True) example_world"
  "traces (rf_reader tracing_reader) (\<lambda>_. True) (\<lambda>_. example_trace)"
proof -
  have "serves tracing_node example_chain (\<lambda>_. True)"
    using chain_node_serves [of example_chain] by (simp add: serves_def tracing_node_def)
  moreover have "errors_revert tracing_node example_chain (\<lambda>_. True)"
    using chain_node_errors [of example_chain] by (simp add: errors_revert_def tracing_node_def)
  ultimately show "screening_inv geth_model tracing_reader example_chain None (\<lambda>_. True) example_world"
    by (simp add: screening_inv_def oracle_inv_def all_established_def example_world_def tracing_reader_def)
  show "traces (rf_reader tracing_reader) (\<lambda>_. True) (\<lambda>_. example_trace)"
    by (simp add: traces_def answers_def tracing_reader_def tracing_node_def)
qed

theorem screening_keeps_invariant_witness:
  "screening_inv geth_model tracing_reader example_chain None (\<lambda>_. True)
     (snd (handler geth_model (Screener_Screen geth_model (firewall_screener geth_model (\<lambda>_. 0)
        (NewListChecker []) None tracing_reader 50 50)) (print_json (call_json example_call), True) example_world))"
  by (rule screening_keeps_invariant [OF tracing_screening], rule prod.collapse [symmetric])

end
