(* ===== verification/Startup.thy ===== *)
theory Startup
  imports Firewall
begin

text \<open>
  When \<open>main\<close> (\<open>cmd/firewall/main.go\<close>) starts, and what: each step of the wiring is characterised by the
  configuration and the checks it needs to succeed.
\<close>

subsection \<open>Steps that succeeded\<close>

lemma require_Ok [simp]: "require x msg w = (Ok v, t) \<longleftrightarrow> x = Some v \<and> t = w"
  by (auto simp: require_def split: option.split)

lemma mustGetEnv_Ok [simp]: "mustGetEnv sys key w = (Ok v, t) \<longleftrightarrow> v = sys_env sys key \<and> v \<noteq> [] \<and> t = w"
  by (auto simp: mustGetEnv_def)

lemma newFreshness_Ok:
  "newFreshness G client window w = (Ok c, t) \<longleftrightarrow>
     c = age_cache G \<lparr>rf_reader = client, rf_window = window\<rparr> \<and>
     RPCFreshness_Verify \<lparr>rf_reader = client, rf_window = window\<rparr> w = (Ok (), t)"
  by (auto simp: newFreshness_def Let_def io_bind_Ok_iff NewCachedFreshness_def freshnessCacheSize_def
      split: sum.splits if_splits)

lemma newSimulator_Ok:
  "newSimulator client w = (Ok s, t) \<longleftrightarrow>
     s = RPCSimulator_Simulate client \<and> RPCSimulator_Verify client w = (Ok (), t)"
  by (auto simp: newSimulator_def io_bind_Ok_iff)

lemma newOracle_Ok:
  "newOracle G sys url w = (Ok c, t) \<longleftrightarrow>
     (\<exists>oN u. ext_call (sys_dial sys url) w = (Ok oN, u) \<and> c = \<lparr>oc_caller = oN, oc_oracle = ChainalysisOracle G\<rparr> \<and>
        OracleChecker_Verify G c u = (Ok (), t))"
  by (auto simp: newOracle_def io_bind_Ok_iff Let_def)

text \<open>
  From \<open>w\<close>, the oracle at the address \<open>url\<close> was connected to and its contract found, which ends in \<open>t\<close>;
  without an address nothing is done.
\<close>

definition oracle_started :: "geth \<Rightarrow> 'e system \<Rightarrow> string \<Rightarrow> 'e node \<Rightarrow> 'e world \<Rightarrow> 'e world \<Rightarrow> bool" where
  "oracle_started G sys url oN w t \<longleftrightarrow>
     (if url = [] then t = w
      else \<exists>u. ext_call (sys_dial sys url) w = (Ok oN, u) \<and>
        OracleChecker_Verify G \<lparr>oc_caller = oN, oc_oracle = ChainalysisOracle G\<rparr> u = (Ok (), t))"

lemma new_checkers_Ok:
  "new_checkers G sys url l w = (Ok cs, t) \<longleftrightarrow>
     (\<exists>oN. oracle_started G sys url oN w t \<and>
        cs = wired_checkers G (sys_now sys) l (if url = [] then None else Some (oN, och)))"
  by (auto simp: new_checkers_def oracle_started_def wired_checkers_def io_bind_Ok_iff newOracle_Ok)

lemma newScreener_Ok:
  assumes "cfg_simulator cfg = RPCSimulator_Simulate (rf_reader rf)" and "cfg_freshness cfg = age_cache G rf"
    and "cfg_balances cfg = balance_reader G rf"
  shows "newScreener G sys cfg w = (Ok scr, t) \<longleftrightarrow>
    (\<exists>l oN. LoadListChecker G (sys_open sys) (cfg_sanctionsFile cfg) = Inr l \<and>
      oracle_started G sys (cfg_oracleRPC cfg) oN w t \<and>
      1 \<le> cfg_outflowPercent cfg \<and> cfg_outflowPercent cfg \<le> 100 \<and> 0 < cfg_threshold cfg \<and>
      scr = firewall_screener G (sys_now sys) l (if cfg_oracleRPC cfg = [] then None else Some (oN, och)) rf
        (cfg_outflowPercent cfg) (cfg_threshold cfg))"
  by (cases "cfg_oracleRPC cfg = []")
    (auto simp: newScreener_def io_bind_Ok_iff new_checkers_Ok [where och = och] NewOutflowDetector_def
      NewEngine_def firewall_screener_def assms not_less split: sum.splits if_splits)

text \<open>The steps of \<open>main\<close>, in order.\<close>

lemma main_steps:
  "main G sys w = (Ok srv, t) \<longleftrightarrow>
     (\<exists>logger threshold window percent client sim freshness scr w1 w2 w3.
        Logging_New (getEnv sys ''LOG_FORMAT'' ''pretty'') (getEnv sys ''LOG_LEVEL'' ''info'') = Inr logger \<and>
        sys_env sys ''UPSTREAM_URL'' \<noteq> [] \<and> sys_full_url sys (sys_env sys ''UPSTREAM_URL'') \<and>
        sys_env sys ''LISTEN_ADDR'' \<noteq> [] \<and> sys_env sys ''SANCTIONS_FILE'' \<noteq> [] \<and>
        Atoi (getEnv sys ''RISK_THRESHOLD'' ''50'') = Some threshold \<and>
        ParseUint64 (getEnv sys ''FRESH_CONTRACT_BLOCKS'' ''7200'') = Some window \<and> window \<noteq> 0 \<and>
        Atoi (getEnv sys ''LARGE_OUTFLOW_PERCENT'' ''50'') = Some percent \<and>
        dialUpstream sys (sys_env sys ''UPSTREAM_URL'') w = (Ok client, w1) \<and>
        newSimulator client w1 = (Ok sim, w2) \<and> newFreshness G client window w2 = (Ok freshness, w3) \<and>
        newScreener G sys
          \<lparr>cfg_sanctionsFile = sys_env sys ''SANCTIONS_FILE'', cfg_oracleRPC = sys_env sys ''SANCTIONS_ORACLE_RPC'',
           cfg_threshold = threshold, cfg_outflowPercent = percent, cfg_simulator = sim,
           cfg_freshness = freshness, cfg_balances = (\<lambda>k. RPCBalances_Balance G client (fst k) (snd k))\<rparr> w3 =
          (Ok scr, t) \<and>
        srv = \<lparr>Server_Addr = sys_env sys ''LISTEN_ADDR'', Server_Handler = handler G (Screener_Screen G scr)\<rparr>)"
  by (cases "Logging_New (getEnv sys ''LOG_FORMAT'' ''pretty'') (getEnv sys ''LOG_LEVEL'' ''info'')";
      cases "ParseUint64 (getEnv sys ''FRESH_CONTRACT_BLOCKS'' ''7200'')";
      cases "sys_full_url sys (sys_env sys ''UPSTREAM_URL'')")
    (auto simp: main_def io_bind_Ok_iff split: if_splits)

lemma screener_wired:
  "newScreener G sys
     \<lparr>cfg_sanctionsFile = file, cfg_oracleRPC = url, cfg_threshold = threshold, cfg_outflowPercent = percent,
      cfg_simulator = RPCSimulator_Simulate client,
      cfg_freshness = age_cache G \<lparr>rf_reader = client, rf_window = window\<rparr>,
      cfg_balances = (\<lambda>k. RPCBalances_Balance G client (fst k) (snd k))\<rparr> w = (Ok scr, t) \<longleftrightarrow>
   (\<exists>l oN. LoadListChecker G (sys_open sys) file = Inr l \<and> oracle_started G sys url oN w t \<and>
      1 \<le> percent \<and> percent \<le> 100 \<and> 0 < threshold \<and>
      scr = firewall_screener G (sys_now sys) l (if url = [] then None else Some (oN, och))
        \<lparr>rf_reader = client, rf_window = window\<rparr> percent threshold)"
  by (subst newScreener_Ok [where rf = "\<lparr>rf_reader = client, rf_window = window\<rparr>" and och = och]) simp_all

lemma main_wired:
  "main G sys w = (Ok srv, t) \<longleftrightarrow>
     (\<exists>logger l client oN threshold window percent w1 w2 w3.
        Logging_New (getEnv sys ''LOG_FORMAT'' ''pretty'') (getEnv sys ''LOG_LEVEL'' ''info'') = Inr logger \<and>
        sys_env sys ''UPSTREAM_URL'' \<noteq> [] \<and> sys_full_url sys (sys_env sys ''UPSTREAM_URL'') \<and>
        sys_env sys ''LISTEN_ADDR'' \<noteq> [] \<and> sys_env sys ''SANCTIONS_FILE'' \<noteq> [] \<and>
        LoadListChecker G (sys_open sys) (sys_env sys ''SANCTIONS_FILE'') = Inr l \<and>
        Atoi (getEnv sys ''RISK_THRESHOLD'' ''50'') = Some threshold \<and> 0 < threshold \<and>
        ParseUint64 (getEnv sys ''FRESH_CONTRACT_BLOCKS'' ''7200'') = Some window \<and> 0 < window \<and>
        Atoi (getEnv sys ''LARGE_OUTFLOW_PERCENT'' ''50'') = Some percent \<and> 1 \<le> percent \<and> percent \<le> 100 \<and>
        ext_call (sys_dial sys (sys_env sys ''UPSTREAM_URL'')) w = (Ok client, w1) \<and>
        RPCSimulator_Verify client w1 = (Ok (), w2) \<and>
        RPCFreshness_Verify \<lparr>rf_reader = client, rf_window = window\<rparr> w2 = (Ok (), w3) \<and>
        oracle_started G sys (sys_env sys ''SANCTIONS_ORACLE_RPC'') oN w3 t \<and>
        srv = \<lparr>Server_Addr = sys_env sys ''LISTEN_ADDR'',
          Server_Handler = handler G (Screener_Screen G (firewall_screener G (sys_now sys) l
            (if sys_env sys ''SANCTIONS_ORACLE_RPC'' = [] then None else Some (oN, och))
            \<lparr>rf_reader = client, rf_window = window\<rparr> percent threshold))\<rparr>)"
    (is "?main \<longleftrightarrow> ?valid")
proof
  assume ?main
  then obtain logger threshold window percent client scr w1 w2 w3 where *:
      "Logging_New (getEnv sys ''LOG_FORMAT'' ''pretty'') (getEnv sys ''LOG_LEVEL'' ''info'') = Inr logger"
      "sys_env sys ''UPSTREAM_URL'' \<noteq> []" "sys_full_url sys (sys_env sys ''UPSTREAM_URL'')"
      "sys_env sys ''LISTEN_ADDR'' \<noteq> []" "sys_env sys ''SANCTIONS_FILE'' \<noteq> []"
      "Atoi (getEnv sys ''RISK_THRESHOLD'' ''50'') = Some threshold"
      "ParseUint64 (getEnv sys ''FRESH_CONTRACT_BLOCKS'' ''7200'') = Some window" "window \<noteq> 0"
      "Atoi (getEnv sys ''LARGE_OUTFLOW_PERCENT'' ''50'') = Some percent"
      "ext_call (sys_dial sys (sys_env sys ''UPSTREAM_URL'')) w = (Ok client, w1)"
      "RPCSimulator_Verify client w1 = (Ok (), w2)"
      "RPCFreshness_Verify \<lparr>rf_reader = client, rf_window = window\<rparr> w2 = (Ok (), w3)"
      "newScreener G sys
          \<lparr>cfg_sanctionsFile = sys_env sys ''SANCTIONS_FILE'', cfg_oracleRPC = sys_env sys ''SANCTIONS_ORACLE_RPC'',
           cfg_threshold = threshold, cfg_outflowPercent = percent, cfg_simulator = RPCSimulator_Simulate client,
           cfg_freshness = age_cache G \<lparr>rf_reader = client, rf_window = window\<rparr>,
           cfg_balances = (\<lambda>k. RPCBalances_Balance G client (fst k) (snd k))\<rparr> w3 = (Ok scr, t)"
      "srv = \<lparr>Server_Addr = sys_env sys ''LISTEN_ADDR'', Server_Handler = handler G (Screener_Screen G scr)\<rparr>"
    unfolding main_steps newSimulator_Ok newFreshness_Ok dialUpstream_def by (elim exE conjE, hypsubst) blast
  from *(13) obtain l oN where "LoadListChecker G (sys_open sys) (sys_env sys ''SANCTIONS_FILE'') = Inr l"
      "oracle_started G sys (sys_env sys ''SANCTIONS_ORACLE_RPC'') oN w3 t"
      "1 \<le> percent" "percent \<le> 100" "0 < threshold"
      "scr = firewall_screener G (sys_now sys) l (if sys_env sys ''SANCTIONS_ORACLE_RPC'' = [] then None else Some (oN, och))
        \<lparr>rf_reader = client, rf_window = window\<rparr> percent threshold"
    unfolding screener_wired [where och = och] by blast
  with * show ?valid
    by (intro exI [of _ logger] exI [of _ l] exI [of _ client] exI [of _ oN] exI [of _ threshold]
        exI [of _ window] exI [of _ percent] exI [of _ w1] exI [of _ w2] exI [of _ w3])
      (simp add: word_greater_zero_iff)
next
  assume ?valid
  then show ?main
    unfolding main_steps newSimulator_Ok newFreshness_Ok dialUpstream_def word_greater_zero_iff
    by (elim exE conjE, intro exI conjI) (assumption | rule refl screener_wired [where och = och, THEN iffD2] | blast)+
qed


subsection \<open>Starting leaves the caches as they are\<close>

lemma ext_only_checks [ext_only_intros]:
  "ext_only (require x msg)" "ext_only (mustGetEnv sys key)" "ext_only (dialUpstream sys url)"
  "ext_only (newSimulator client)" "ext_only (newFreshness G client window)" "ext_only (newOracle G sys url)"
  "ext_only (new_checkers G sys url l)" "ext_only (newScreener G sys cfg)"
  unfolding require_def mustGetEnv_def dialUpstream_def newSimulator_def newFreshness_def newOracle_def
    new_checkers_def newScreener_def RPCSimulator_Verify_def RPCFreshness_Verify_def pastBlock_def
    OracleChecker_Verify_def Let_def
  by (auto intro!: ext_only_intros split: sum.split option.split)

lemma ext_only_main: "ext_only (main G sys)"
  unfolding main_def by (auto intro!: ext_only_intros split: sum.split)

subsection \<open>An example configuration\<close>

definition example_env :: "(string \<times> string) list" where
  "example_env = [(''UPSTREAM_URL'', ''http://node:8545''), (''LISTEN_ADDR'', '':8546''), (''SANCTIONS_FILE'', ''list.txt'')]"

definition example_system :: "unit system" where
  "example_system =
     \<lparr>sys_env = (\<lambda>key. case map_of example_env key of None \<Rightarrow> '''' | Some v \<Rightarrow> v),
      sys_full_url = (\<lambda>_. True), sys_open = (\<lambda>_. Inr ('''', None)),
      sys_dial = (\<lambda>_ e. (Inr tracing_node, e)), sys_now = (\<lambda>_. 0)\<rparr>"

lemma example_config:
  "Logging_New ''pretty'' ''info'' = Inr \<lparr>Logger_handler = TintHandler, Logger_level = 0\<rparr>"
  "Atoi ''50'' = Some 50" "ParseUint64 ''7200'' = Some 7200"
  by (simp_all add: Logging_New_def Level_UnmarshalText_def level_name_def is_sign_def in_range_def
      char_of_eq_iff Atoi_def ParseUint64_def is_digit_def digits_value_def Let_def)

lemma example_main: "\<exists>srv. main geth_model example_system example_world = (Ok srv, example_world)"
proof -
  have "RPCSimulator_Verify tracing_node example_world = (Ok (), example_world)"
    by (simp add: RPCSimulator_Verify_def io_bind_Ok_iff trace_Ok tracing_node_def example_trace_def plain_call_def
       example_world_def)
  then have sim: "newSimulator tracing_node example_world = (Ok (RPCSimulator_Simulate tracing_node), example_world)"
    by (simp add: newSimulator_def io_bind_Ok_iff)
  have "RPCFreshness_Verify \<lparr>rf_reader = tracing_node, rf_window = 7200\<rparr> example_world = (Ok (), example_world)"
    by (simp add: RPCFreshness_Verify_def pastBlock_def ext_call_def io_bind_def on_err_def ret_def tracing_node_def
        chain_node_def example_world_def example_chain_def)
  then have age: "newFreshness geth_model tracing_node 7200 example_world = (Ok (age_cache geth_model tracing_reader), example_world)"
    by (simp add: newFreshness_def Let_def io_bind_Ok_iff NewCachedFreshness_def freshnessCacheSize_def tracing_reader_def)
  have "parseList geth_model ([], None) = Inr []" by (simp add: parseList_def scan_tokens_def scan_too_long_def)
  then have list: "LoadListChecker geth_model (sys_open example_system) ''list.txt'' = Inr (NewListChecker [])"
    by (simp add: LoadListChecker_def example_system_def)
  have scr: "\<exists>scr. newScreener geth_model example_system
      \<lparr>cfg_sanctionsFile = ''list.txt'', cfg_oracleRPC = [], cfg_threshold = 50, cfg_outflowPercent = 50,
       cfg_simulator = sim, cfg_freshness = cf, cfg_balances = bal\<rparr> example_world = (Ok scr, example_world)" for sim cf bal
    by (simp add: newScreener_def list new_checkers_def NewOutflowDetector_def NewEngine_def io_bind_Ok_iff)
  have env: "sys_env example_system ''UPSTREAM_URL'' = ''http://node:8545''" "sys_env example_system ''LISTEN_ADDR'' = '':8546''"
    "sys_env example_system ''SANCTIONS_FILE'' = ''list.txt''" "sys_env example_system ''LOG_FORMAT'' = []"
    "sys_env example_system ''LOG_LEVEL'' = []" "sys_env example_system ''RISK_THRESHOLD'' = []"
    "sys_env example_system ''FRESH_CONTRACT_BLOCKS'' = []" "sys_env example_system ''LARGE_OUTFLOW_PERCENT'' = []"
    "sys_env example_system ''SANCTIONS_ORACLE_RPC'' = []" "sys_full_url example_system ''http://node:8545''"
    by (simp_all add: example_system_def example_env_def)
  have dial: "dialUpstream example_system ''http://node:8545'' example_world = (Ok tracing_node, example_world)"
    by (simp add: dialUpstream_def ext_call_iffs example_system_def example_world_def)
  show ?thesis
    using sim age scr dial
    by (simp add: main_def getEnv_def env example_config io_bind_Ok_iff)
qed


end
