(* ===== verification/Service.thy ===== *)
theory Service
  imports Startup
begin

text \<open>
  The running service, whatever the node and the oracle answer: no computation of the pipeline panics
  and the two caches stay within their sizes. The requests are served one after the other; the
  interleaving of lookups in the sanctions cache is in \<open>SanctionsCache\<close>.
\<close>

subsection \<open>Robust computations\<close>

text \<open>
  \<open>robust P m\<close>: started where \<open>P\<close> holds, \<open>m\<close> does not panic and leaves a state where \<open>P\<close> holds; nothing
  is said about the value. It is \<open>safe\<close> without a postcondition.
\<close>

definition robust :: "('s \<Rightarrow> bool) \<Rightarrow> ('s, 'a) io \<Rightarrow> bool" where
  "robust P m \<longleftrightarrow> safe P m (\<lambda>_. True)"

named_theorems robust_intros \<open>rules for \<open>robust\<close>\<close>

lemma robustD: "robust P m \<Longrightarrow> P s \<Longrightarrow> m s = (r, t) \<Longrightarrow> P t \<and> r \<noteq> Panic"
  by (auto simp: robust_def safe_def)

lemma robustI: "(\<And>s r t. P s \<Longrightarrow> m s = (r, t) \<Longrightarrow> P t \<and> r \<noteq> Panic) \<Longrightarrow> robust P m"
  by (auto simp: robust_def safe_def)

lemma robust_ret [robust_intros]: "robust P (ret x)"
  by (simp add: robust_def safe_ret)

lemma robust_throw [robust_intros]: "robust P (throw e)"
  by (simp add: robust_def safe_throw)

lemma robust_or_panic: "x \<noteq> None \<Longrightarrow> robust P (or_panic x)"
  by (auto simp: or_panic_Some robust_ret)

lemma robust_bind_safe: "safe P m Q \<Longrightarrow> (\<And>x. Q x \<Longrightarrow> robust P (k x)) \<Longrightarrow> robust P (io_bind m k)"
  unfolding robust_def by (rule safe_bind)

lemma robust_bind [robust_intros]: "robust P m \<Longrightarrow> (\<And>x. robust P (k x)) \<Longrightarrow> robust P (io_bind m k)"
  by (rule robust_bind_safe) (simp_all add: robust_def)

lemma robust_on_err [robust_intros]: "robust P m \<Longrightarrow> robust P (on_err f m)"
  unfolding robust_def by (rule safe_on_err)

lemma robust_try [robust_intros]: "robust P m \<Longrightarrow> robust P (io_try m)"
  unfolding robust_def by (rule safe_weaken [OF safe_try]) simp_all

lemma robust_if [robust_intros]: "robust P m \<Longrightarrow> robust P n \<Longrightarrow> robust P (if b then m else n)"
  by simp

lemma robust_option [robust_intros]:
  "robust P m \<Longrightarrow> (\<And>x. robust P (k x)) \<Longrightarrow> robust P (case v of None \<Rightarrow> m | Some x \<Rightarrow> k x)"
  by (cases v) auto

lemma robust_sum [robust_intros]:
  "(\<And>e. robust P (m e)) \<Longrightarrow> (\<And>x. robust P (k x)) \<Longrightarrow> robust P (case v of Inl e \<Rightarrow> m e | Inr x \<Rightarrow> k x)"
  by (cases v) auto

lemma robust_Let [robust_intros]: "robust P (m x) \<Longrightarrow> robust P (let y = x in m y)"
  by simp

subsection \<open>Rules over lookups that keep it\<close>

text \<open>The lookups the firewall's rules make, with no assumption on what they answer.\<close>

locale lookups =
  fixes P :: "'s \<Rightarrow> bool"
    and checker :: "'s Checker"
    and status :: "'s StatusReader"
    and fresh :: "'s FreshnessChecker"
    and balances :: "'s BalanceReader"
  assumes checker_robust [robust_intros]: "robust P (checker x)"
    and status_robust [robust_intros]: "robust P (status x)"
    and fresh_robust [robust_intros]: "robust P (fresh x)"
    and balances_robust [robust_intros]: "robust P (balances k)"
begin

lemma sanctioned_robust [robust_intros]: "robust P (sanctioned_loop G checker fs xs)"
  by (induction xs arbitrary: fs) (auto intro!: robust_intros)

lemma isFresh_robust [robust_intros]: "robust P (isFresh G fresh a x)"
  unfolding isFresh_def by (intro robust_intros)

lemma delegatecall_robust [robust_intros]: "robust P (delegatecall_loop G fresh a checked ts fs)"
  by (induction fs arbitrary: checked ts) (auto intro!: robust_intros)

lemma approval_robust [robust_intros]: "robust P (approval_loop G fresh a checked ts aps)"
proof (induction aps arbitrary: checked ts)
  case (Cons ap aps)
  show ?case unfolding approval_loop.simps by (intro robust_intros Cons)
qed (simp add: robust_ret)

lemma operatorKind_robust [robust_intros]: "robust P (operatorKind G status a x)"
  unfolding operatorKind_def by (auto intro!: robust_intros split: Status.split)

lemma grant_robust [robust_intros]: "robust P (grant_loop G status a kind gs aps)"
proof (induction aps arbitrary: kind gs)
  case (Cons ap aps)
  show ?case unfolding grant_loop.simps by (intro robust_intros Cons)
qed (simp add: robust_ret)

abbreviation detector :: "int \<Rightarrow> 's OutflowDetector" where
  "detector percent \<equiv> \<lparr>od_status = status, od_balances = balances, od_percent = percent\<rparr>"

lemma find_safe:
  "(\<forall>ofl \<in> set found. Outflow_Balance ofl \<noteq> 0) \<Longrightarrow>
     safe P (find_loop G (detector percent) a found fs) (\<lambda>os. \<forall>ofl \<in> set os. Outflow_Balance ofl \<noteq> 0)"
proof (induction fs arbitrary: found)
  case (Cons f fs)
  note lookups = status_robust [unfolded robust_def] balances_robust [unfolded robust_def]
  from Cons.prems show ?case
    unfolding find_loop.simps OutflowDetector.simps Let_def
    by (auto intro!: Cons.IH safe_bind [OF safe_on_err [OF lookups(1)]] safe_bind [OF lookups(2)]
        simp: outflow_of_def split: option.split)
qed (simp add: safe_ret)

lemma Find_safe:
  "safe P (OutflowDetector_Find G (detector percent) a) (\<lambda>os. \<forall>ofl \<in> set os. Outflow_Balance ofl \<noteq> 0)"
  by (simp add: OutflowDetector_Find_def find_safe)

lemma large_robust [robust_intros]: "robust P (LargeOutflow_Evaluate G (detector percent) a)"
  unfolding LargeOutflow_Evaluate_def
  by (rule robust_bind_safe [OF Find_safe]) (intro robust_intros robust_or_panic, simp add: outflow_texts_defined)

lemma flash_robust [robust_intros]: "robust P (FlashLoanOutflow_Evaluate G (detector percent) a)"
  unfolding FlashLoanOutflow_Evaluate_def Let_def
  by (intro robust_if robust_ret robust_bind_safe [OF Find_safe] robust_bind robust_or_panic)
    (simp add: outflow_texts_defined)

lemma deploy_robust [robust_intros]: "robust P (or_panic (DeployAndCall_Evaluate G a))"
  by (rule robust_or_panic) (simp add: DeployAndCall_Evaluate_eq)

lemma rules_robust:
  assumes "r \<in> set (firewall_rules G checker fresh status (detector percent))"
  shows "robust P (Rule_Evaluate r a)"
  using assms
  by (auto simp: firewall_rules_def NewSanctioned_def NewPrivilegeChange_def NewDeployAndCall_def
      NewDelegatecallToFresh_def DelegatecallToFresh_Evaluate_def NewUnlimitedApproval_def
      UnlimitedApproval_Evaluate_def NewNFTDrainer_def NFTDrainer_Evaluate_def NewLargeOutflow_def
      NewFlashLoanOutflow_def intro!: robust_intros)

end

lemma rules_loop_robust:
  "(\<And>r. r \<in> set rs \<Longrightarrow> robust P (Rule_Evaluate r a)) \<Longrightarrow> robust P (rules_loop a v rs)"
  by (induction rs arbitrary: v) (auto intro!: robust_intros)

lemma Engine_robust:
  "(\<And>r. r \<in> set (Engine_rules e) \<Longrightarrow> robust P (Rule_Evaluate r a)) \<Longrightarrow> robust P (Engine_Evaluate e a)"
  unfolding Engine_Evaluate_def by (intro robust_intros rules_loop_robust)

lemma Screen_robust:
  assumes "\<And>tx. robust P (Screener_sim s tx)"
    and "\<And>r a. r \<in> set (Engine_rules (Screener_engine s)) \<Longrightarrow> robust P (Rule_Evaluate r a)"
  shows "robust P (Screener_Screen G s tx)"
  unfolding Screener_Screen_def
  by (intro robust_intros robust_or_panic Engine_robust assms) (simp add: Build_defined)

text \<open>No index of the parsers or of the log record is out of range.\<close>

lemma parsers_robust [robust_intros]:
  "robust P (or_panic (ParseRequests body))" "robust P (or_panic (DecodeRawTransaction G params))"
  "robust P (or_panic (logTransaction G tx))" "robust P (or_panic (decodeBool out))"
  using ParseRequests_defined [of body] DecodeRawTransaction_defined [of G params] logTransaction_defined [of G tx]
    decodeBool_defined [of out]
  by (auto intro!: robust_or_panic)

lemma screen_requests_robust:
  "(\<And>tx. robust P (screener tx)) \<Longrightarrow> robust P (screen_requests G screener reqs)"
proof (induction reqs)
  case (Cons req reqs)
  show ?case unfolding screen_requests.simps by (intro robust_intros Cons.prems Cons.IH)
qed (simp add: robust_ret)

lemma handler_robust: "(\<And>tx. robust P (screener tx)) \<Longrightarrow> robust P (handler G screener b)"
  unfolding handler_def by (intro robust_intros screen_requests_robust)


subsection \<open>The caches\<close>

definition caches_bounded :: "'e world \<Rightarrow> bool" where
  "caches_bounded w \<longleftrightarrow>
     finite (w_known w) \<and> int (card (w_known w)) \<le> freshnessCacheSize \<and>
     finite (dom (w_entries w)) \<and> int (card (dom (w_entries w))) \<le> oracleCacheSize"

lemma bounded_ext_call [robust_intros]: "robust caches_bounded (ext_call f)"
proof (rule robustI)
  fix w :: "'a world" and r t
  assume "caches_bounded w" "ext_call f w = (r, t)"
  then show "caches_bounded t \<and> r \<noteq> Panic"
    using ext_call_caches [of f w r t] ext_call_iffs(3) [of f w t] by (auto simp: caches_bounded_def)
qed

lemma bounded_calls [robust_intros]:
  "robust caches_bounded (RPCFreshness_Status G rf x)"
  "robust caches_bounded (RPCBalances_Balance G N asset holder)"
  "robust caches_bounded (OracleChecker_IsSanctioned G oc x)"
  "robust caches_bounded (trace N args)"
  unfolding RPCFreshness_Status_def pastBlock_def RPCBalances_Balance_def OracleChecker_IsSanctioned_def trace_def
  by (auto intro!: robust_intros split: sum.split option.split)

lemma bounded_remember: "caches_bounded w \<Longrightarrow> caches_bounded (remember_known (age_cache G rf) x w)"
  by (auto simp: caches_bounded_def remember_known_def Let_def freshnessCacheSize_def card_insert_if)

lemma bounded_Status [robust_intros]: "robust caches_bounded (CachedFreshness_Status (age_cache G rf) x)"
proof (rule robustI)
  fix w :: "'a world" and r t
  assume w: "caches_bounded w" and run: "CachedFreshness_Status (age_cache G rf) x w = (r, t)"
  obtain q u where q: "RPCFreshness_Status G rf x w = (q, u)" by (cases "RPCFreshness_Status G rf x w")
  from robustD [OF bounded_calls(1) w q] run q w show "caches_bounded t \<and> r \<noteq> Panic"
    by (cases q) (auto simp: CachedFreshness_Status_def io_bind_def bounded_remember split: if_splits)
qed

lemma bounded_Checker [robust_intros]:
  "robust caches_bounded (CachedChecker_IsSanctioned (NewCachedChecker clock
     (OracleChecker_IsSanctioned G oc) ttl oracleCacheSize) x)"
    (is "robust _ (CachedChecker_IsSanctioned ?c x)")
proof (rule robustI)
  fix w :: "'a world" and r t
  assume w: "caches_bounded w" and run: "CachedChecker_IsSanctioned ?c x w = (r, t)"
  obtain q u where q: "OracleChecker_IsSanctioned G oc x w = (q, u)" by (cases "OracleChecker_IsSanctioned G oc x w")
  have "caches_bounded (u\<lparr>w_entries := cache_store ?c now x hit (w_entries u)\<rparr>)" if "caches_bounded u" for now hit
    using that card_cache_store [of "w_entries u" ?c now x hit]
    by (simp add: caches_bounded_def NewCachedChecker_def oracleCacheSize_def)
  with robustD [OF bounded_calls(3) w q] run q w show "caches_bounded t \<and> r \<noteq> Panic"
    by (cases q) (auto simp: CachedChecker_IsSanctioned_def NewCachedChecker_def Let_def io_bind_def split: option.splits)
qed

lemma bounded_checkers: "robust caches_bounded (AnyChecker_IsSanctioned (wired_checkers G clock l orac) x)"
  by (auto simp: wired_checkers_def ListChecker_IsSanctioned_def intro!: robust_intros split: option.split)

interpretation wired_lookups: lookups caches_bounded "AnyChecker_IsSanctioned (wired_checkers G clock l orac)"
  "CachedFreshness_Status (age_cache G rf)" "CachedFreshness_IsFreshContract (age_cache G rf)" "balance_reader G rf"
  for G clock l orac rf
proof unfold_locales
  show "robust caches_bounded (CachedFreshness_IsFreshContract (age_cache G rf) x)" for x
    unfolding CachedFreshness_IsFreshContract_def by (intro robust_intros)
qed (auto intro: bounded_checkers robust_intros)

lemma firewall_robust:
  "robust caches_bounded (handler G (Screener_Screen G (firewall_screener G clock l orac rf percent threshold)) b)"
  by (intro handler_robust Screen_robust)
    (auto simp: firewall_screener_def RPCSimulator_Simulate_def intro: robust_intros wired_lookups.rules_robust)


lemma started_robust:
  assumes "main G sys w = (Ok srv, t)"
  shows "robust caches_bounded (Server_Handler srv b)"
proof -
  from main_wired [THEN iffD1, OF assms, of undefined] obtain l client threshold window percent orac where
    "Server_Handler srv = handler G (Screener_Screen G (firewall_screener G (sys_now sys) l orac
       \<lparr>rf_reader = client, rf_window = window\<rparr> percent threshold))"
    by auto
  then show ?thesis by (simp add: firewall_robust)
qed

subsection \<open>Serving requests\<close>

text \<open>
  From the state \<open>w\<close> in which the server starts, the states it reaches: requests are handled, and
  between them the outside changes in any way.
\<close>

inductive served :: "'e server \<Rightarrow> 'e world \<Rightarrow> 'e world \<Rightarrow> bool" for srv w where
  started: "served srv w w"
| request: "served srv w u \<Longrightarrow> Server_Handler srv b u = (r, t) \<Longrightarrow> served srv w t"
| outside: "served srv w u \<Longrightarrow> served srv w (u\<lparr>w_ext := x\<rparr>)"

lemma served_invariant:
  assumes "served srv w t" and "P w" and "\<And>b. robust P (Server_Handler srv b)"
    and "\<And>u x. P u \<Longrightarrow> P (u\<lparr>w_ext := x\<rparr>)"
  shows "P t"
  using assms(1,2)
proof (induction rule: served.induct)
  case (request u b r t)
  then show ?case using robustD [OF assms(3)] by blast
qed (use assms(4) in auto)

lemma served_bounded:
  assumes "main G sys w = (Ok srv, u)" and "w_known w = {}" and "w_entries w = Map.empty" and "served srv u t"
  shows "caches_bounded t"
  using assms(4)
proof (rule served_invariant)
  show "caches_bounded u"
    using ext_onlyD [OF ext_only_main assms(1)] assms(2,3)
    by (simp add: caches_bounded_def freshnessCacheSize_def oracleCacheSize_def)
  show "robust caches_bounded (Server_Handler srv b)" for b
    by (rule started_robust [OF assms(1)])
qed (simp add: caches_bounded_def)

lemma started_no_error:
  assumes "main G sys w = (Ok srv, t)"
  shows "Server_Handler srv b u \<noteq> (Err e, v)"
  using main_wired [THEN iffD1, OF assms, of undefined] by (auto simp: handler_no_error)

text \<open>
  C4. The running firewall answers every request, whatever the node and the oracle do: in every state
  it reaches from its start, with any sequence of requests behind it, the handler returns a response to
  every body, complete or not and whatever its bytes, without a panic. The panics excluded are those of
  every index and slice expression with a variable bound (request parsing, transaction decoding, the log
  record, the event decoders, the flow table, \<open>SubtreeEnd\<close>, the oracle's answer), of nil amounts and of
  a division by a zero balance.
\<close>

theorem firewall_always_answers:
  assumes "main G sys w = (Ok srv, u)" and "w_known w = {}" and "w_entries w = Map.empty" and "served srv u t"
  shows "\<exists>resp v. Server_Handler srv b t = (Ok resp, v)"
proof -
  obtain r v where rv: "Server_Handler srv b t = (r, v)" by (cases "Server_Handler srv b t")
  with robustD [OF started_robust [OF assms(1)] served_bounded [OF assms] rv] started_no_error [OF assms(1)]
  show ?thesis by (cases r) (blast, metis, blast)
qed

text \<open>
  C15. The memory of the running firewall is bounded: in every state it reaches from its start, whatever
  it was asked and whatever the node and the oracle answered, the contract-age cache and the sanctions
  cache hold at most 100000 addresses each.
\<close>

theorem caches_stay_bounded:
  assumes "main G sys w = (Ok srv, u)" and "w_known w = {}" and "w_entries w = Map.empty" and "served srv u t"
  shows "finite (w_known t) \<and> card (w_known t) \<le> 100000 \<and>
    finite (dom (w_entries t)) \<and> card (dom (w_entries t)) \<le> 100000"
  using served_bounded [OF assms] by (simp add: caches_bounded_def freshnessCacheSize_def oracleCacheSize_def)

text \<open>The example configuration, after a request that is not JSON.\<close>

lemma example_served:
  "\<exists>srv t. main geth_model example_system example_world = (Ok srv, example_world) \<and>
     served srv example_world t \<and> snd (Server_Handler srv (''garbage'', True) example_world) = t"
proof -
  obtain srv where srv: "main geth_model example_system example_world = (Ok srv, example_world)"
    using example_main by blast
  obtain r t where "Server_Handler srv (''garbage'', True) example_world = (r, t)"
    by (cases "Server_Handler srv (''garbage'', True) example_world")
  with srv served.request [OF served.started, of srv "(''garbage'', True)"] show ?thesis by auto
qed

theorem firewall_always_answers_witness:
  "\<exists>srv t resp v. main geth_model example_system example_world = (Ok srv, example_world) \<and>
     served srv example_world t \<and> Server_Handler srv (''{'', False) t = (Ok resp, v)"
proof -
  obtain srv t where srv: "main geth_model example_system example_world = (Ok srv, example_world)"
      "served srv example_world t" using example_served by blast
  with firewall_always_answers [OF srv(1) _ _ srv(2)] show ?thesis by (auto simp: example_world_def)
qed

theorem caches_stay_bounded_witness:
  "\<exists>srv t. main geth_model example_system example_world = (Ok srv, example_world) \<and>
     served srv example_world t \<and> card (w_known t) \<le> 100000"
proof -
  obtain srv t where srv: "main geth_model example_system example_world = (Ok srv, example_world)"
      "served srv example_world t" using example_served by blast
  with caches_stay_bounded [OF srv(1) _ _ srv(2)] show ?thesis by (auto simp: example_world_def)
qed

end
