(* ===== verification/Limits.thy ===== *)
theory Limits
  imports Firewall
begin

text \<open>
  Where the firewall does less than its comments and its documentation say. Each theorem states what the
  code does.
\<close>

subsection \<open>Two spellings of one key\<close>

definition confusing :: json where
  "confusing =
     JObject [member ''method'' (JString ''eth_sendRawTransaction''), member ''params'' (JArray [JString ''0x02'']),
       member ''METHOD'' (JString ''eth_chainId'')]"

lemma confusing_parse: "parse_json (print_json confusing) = Some confusing"
  by (rule parse_json_print) (simp add: confusing_def member_def plain_def maxNestingDepth_def)

lemma confusing_requests:
  "\<exists>req. ParseRequests (print_json confusing) = Some (Inr [req]) \<and> Request_Method req = ''eth_chainId''"
proof -
  obtain t where shape: "print_json confusing = CHR ''{'' # t @ [CHR ''}'']"
    by (simp add: confusing_def)
  have "TrimSpace (print_json confusing) = print_json confusing"
    unfolding shape by (rule TrimSpace_bracketed) simp_all
  moreover obtain req where "decode_request confusing = Some req" "Request_Method req = ''eth_chainId''"
    by (simp add: confusing_def decode_request_def member_def store_member_def field_of_names field_of_METHOD store_string_def)
  moreover have "length (print_json confusing) \<noteq> 0" "print_json confusing ! 0 \<noteq> CHR ''[''"
    by (simp_all add: shape)
  ultimately show ?thesis
    using confusing_parse by (simp add: ParseRequests_def Let_def)
qed

text \<open>
  C38. A JSON object whose only \<open>method\<close> key says \<open>eth_sendRawTransaction\<close>, with a later key \<open>METHOD\<close>, is
  read as a call of the other method: the body is forwarded unchanged without any screening, with every
  screener and in every state. A node that reads keys exactly executes the transaction.
\<close>

theorem unscreened_spelling:
  "\<exists>body ms. parse_json body = Some (JObject ms) \<and>
     map (\<lambda>m. snd (snd m)) (filter (\<lambda>m. fst m = ''method'') ms) = [JString ''eth_sendRawTransaction''] \<and>
     (\<forall>G screener s. handler G screener (body, True) s = (Ok (Forwarded body), s))"
proof -
  obtain req where "ParseRequests (print_json confusing) = Some (Inr [req])" "Request_Method req = ''eth_chainId''"
    using confusing_requests by blast
  moreover have "length (print_json confusing) \<le> maxBodySize"
    by (simp add: confusing_def member_def quoted_def maxBodySize_def)
  ultimately have "handler G screener (print_json confusing, True) s = (Ok (Forwarded (print_json confusing)), s)"
    for G and screener :: "Decoded \<Rightarrow> ('s, Verdict) io" and s
    by (simp add: handler_Forwarded all_passed_simps)
  with confusing_parse show ?thesis
    by (intro exI [of _ "print_json confusing"]) (auto simp: confusing_def member_def)
qed

subsection \<open>A balance the node does not report\<close>

lemma Balance_rpc_error:
  assumes "asset \<noteq> 0" and "node_CallContract N asset (balanceOf_calldata G holder) None (w_ext w) = (Inl e, x)"
    and "as_rpc e \<noteq> None"
  shows "RPCBalances_Balance G N asset holder w = (Ok None, w\<lparr>w_ext := x\<rparr>)"
  using assms by (simp add: RPCBalances_Balance_def io_bind_def io_try_def ext_call_def ret_def)

definition only_rpc_errors :: "'e node \<Rightarrow> bool" where
  "only_rpc_errors N \<longleftrightarrow> (\<forall>a data b x. \<exists>e y. node_CallContract N a data b x = (Inl e, y) \<and> as_rpc e \<noteq> None)"

lemma Balance_unmeasured:
  assumes "only_rpc_errors N" and "asset \<noteq> 0"
  shows "\<exists>t. RPCBalances_Balance G N asset holder w = (Ok None, t)"
proof -
  obtain e x where "node_CallContract N asset (balanceOf_calldata G holder) None (w_ext w) = (Inl e, x)" "as_rpc e \<noteq> None"
    using assms(1) unfolding only_rpc_errors_def by blast
  from Balance_rpc_error [OF assms(2) this] show ?thesis by blast
qed

text \<open>A lookup that never fails.\<close>

definition always_answers :: "('k \<Rightarrow> ('s, 'v) io) \<Rightarrow> bool" where
  "always_answers get \<longleftrightarrow> (\<forall>k s. \<exists>v t. get k s = (Ok v, t))"

lemma find_rpc_errors:
  assumes "only_rpc_errors N" and "always_answers status" and "\<forall>f \<in> set fs. Flow_Asset f \<noteq> 0"
  shows "\<exists>t. find_loop G \<lparr>od_status = status, od_balances = (\<lambda>k. RPCBalances_Balance G N (fst k) (snd k)), od_percent = p\<rparr>
      a found fs w = (Ok found, t)"
  using assms(3)
proof (induction fs arbitrary: w)
  case Nil
  then show ?case by (simp add: ret_def)
next
  case (Cons f fs)
  obtain s u where s: "status (Flow_Holder f) w = (Ok s, u)"
    using assms(2) unfolding always_answers_def by blast
  obtain v where v: "RPCBalances_Balance G N (Flow_Asset f) (Flow_Holder f) u = (Ok None, v)"
    using Balance_unmeasured [OF assms(1)] Cons.prems by (metis list.set_intros(1))
  show ?case
    using Cons by (auto simp: io_bind_def on_err_def s v Let_def)
qed

text \<open>
  C39. The two outflow rules pass over a token when the node answers the balance query with any JSON-RPC
  error, also one that says nothing about the token, such as a rate limit: while the node does so and the
  age lookups answer, for a transaction whose flows are all of tokens both rules succeed and report
  nothing, however much a contract loses.
\<close>

theorem rpc_errors_hide_outflow:
  assumes "only_rpc_errors N" and "always_answers status"
    and "\<forall>f \<in> set (Analysis_Flows a). Flow_Asset f \<noteq> 0"
    and "NewOutflowDetector status (\<lambda>k. RPCBalances_Balance G N (fst k) (snd k)) percent = Inr d"
  shows "(\<exists>t. Rule_Evaluate (NewLargeOutflow G d) a w = (Ok [], t)) \<and>
         (\<exists>t. Rule_Evaluate (NewFlashLoanOutflow G d) a w = (Ok [], t))"
proof -
  have d: "d = \<lparr>od_status = status, od_balances = (\<lambda>k. RPCBalances_Balance G N (fst k) (snd k)), od_percent = percent\<rparr>"
    using assms(4) by (auto simp: NewOutflowDetector_def split: if_splits)
  obtain t where "OutflowDetector_Find G d a w = (Ok [], t)"
    unfolding OutflowDetector_Find_def d using find_rpc_errors [OF assms(1-3)] by blast
  then show ?thesis
    by (simp add: NewLargeOutflow_def LargeOutflow_Evaluate_def NewFlashLoanOutflow_def FlashLoanOutflow_Evaluate_def
        io_bind_def or_panic_Some ret_def Let_def)
qed

definition limited_node :: "unit node" where
  "limited_node = (chain_node example_chain)
     \<lparr>node_CallContract := (\<lambda>a data b e. (Inl (RPCError (-32005) ''limit exceeded''), e))\<rparr>"

theorem rpc_errors_hide_outflow_witness:
  "(\<exists>t. Rule_Evaluate (NewLargeOutflow geth_model \<lparr>od_status = (\<lambda>_. ret Established),
       od_balances = (\<lambda>k. RPCBalances_Balance geth_model limited_node (fst k) (snd k)), od_percent = 50\<rparr>)
     example_outflow example_world = (Ok [], t)) \<and>
   loses_much (status_of example_chain 7200) (balance_of geth_model example_chain) 50 example_outflow
     \<lparr>Flow_Asset = 9, Flow_Holder = 2, Flow_Out = 60, Flow_In = 0\<rparr>"
proof -
  let ?d = "\<lparr>od_status = (\<lambda>_. ret Established),
       od_balances = (\<lambda>k. RPCBalances_Balance geth_model limited_node (fst k) (snd k)), od_percent = 50\<rparr>"
  have N: "only_rpc_errors limited_node" by (simp add: only_rpc_errors_def limited_node_def)
  have s: "always_answers (\<lambda>_ :: address. ret Established :: (unit world, Status) io)"
    by (simp add: always_answers_def ret_def)
  have d: "NewOutflowDetector (\<lambda>_. ret Established) (\<lambda>k. RPCBalances_Balance geth_model limited_node (fst k) (snd k)) 50 =
      Inr ?d" by (simp add: NewOutflowDetector_def)
  have flows: "\<forall>f \<in> set (Analysis_Flows example_outflow). Flow_Asset f \<noteq> 0" by (simp add: example_outflow_def)
  from rpc_errors_hide_outflow [OF N s flows d] example_loses_much show ?thesis by blast
qed

subsection \<open>A lender for a moment\<close>

lemma find_always_answers:
  assumes "always_answers (od_status d)" and "always_answers (od_balances d)"
  shows "find_loop G d a found fs w \<noteq> (Err e, t)"
proof (induction fs arbitrary: found w)
  case (Cons f fs)
  have "od_status d x u \<noteq> (Err e', v)" "od_balances d k u \<noteq> (Err e', v)" for x k u e' v
    using assms unfolding always_answers_def by (metis prod.inject result.distinct(1))+
  with Cons show ?case by (auto simp: io_bind_Err_iff Let_def split: option.split)
qed simp

lemma outflow_rules_answer:
  assumes "always_answers (od_status d)" and "always_answers (od_balances d)"
  shows "Rule_Evaluate (NewLargeOutflow G d) a w \<noteq> (Err e, t)"
    and "Rule_Evaluate (NewFlashLoanOutflow G d) a w \<noteq> (Err e, t)"
  using find_always_answers [OF assms]
  by (auto simp: NewLargeOutflow_def LargeOutflow_Evaluate_def NewFlashLoanOutflow_def FlashLoanOutflow_Evaluate_def
      OutflowDetector_Find_def io_bind_Err_iff Let_def)

lemma round_trip_lends:
  assumes "Build G tx (Some f) = Some a" and "Analysis_Transfers a = pre @ out # rest" and "opens_loan out rest"
  shows "Transfer_From out \<in> FlashLoan_Lender ` set (Analysis_FlashLoans a)"
proof -
  note fields = Build_fields [OF assms(1)]
  have "(Transfer_From out, Transfer_Token out) \<in> loan_key ` set (pattern_loans (\<lambda>_. False) (trace_transfers G f))"
    unfolding pattern_loans_keys using assms(2,3) fields(7) by (auto simp: borrowed_iff)
  then show ?thesis
    unfolding fields(12) trace_loans_def mergeFlashLoans_lenders by (force simp: loan_key_def)
qed

text \<open>
  C40. A contract that sends any positive amount of a token and gets it back in the same transaction
  counts as a lender. So when such a contract is the only holder that loses more than the percentage,
  the flash-loan rule reports nothing, whoever else lent funds, and the two outflow rules together stay
  at the weight 40, below the default threshold of 50. The lookups are truthful and do not fail.
\<close>

theorem round_trip_hides_drain:
  assumes "Build G tx (Some f) = Some a" and "Analysis_Transfers a = pre @ out # rest" and "opens_loan out rest"
    and "\<forall>fl \<in> set (Analysis_Flows a). loses_much age bal percent a fl \<longrightarrow> Flow_Holder fl = Transfer_From out"
    and "lookup_service status P age" and "lookup_service balances P bal"
    and "always_answers status" and "always_answers balances"
    and "NewOutflowDetector status balances percent = Inr d" and "P s"
  shows "(\<exists>t. Rule_Evaluate (NewFlashLoanOutflow G d) a s = (Ok [], t)) \<and>
    (\<exists>fs t. Rule_Evaluate (NewLargeOutflow G d) a s = (Ok fs, t) \<and> (\<Sum>x \<leftarrow> fs. Finding_Weight x) \<le> 40)"
proof -
  have d: "d = \<lparr>od_status = status, od_balances = balances, od_percent = percent\<rparr>"
    using assms(9) by (auto simp: NewOutflowDetector_def split: if_splits)
  note client = outflow_client.intro [OF assms(5,6)]
  note answers = outflow_rules_answer [of d G a s, unfolded d, simplified, OF assms(7,8)]
  obtain r t where rt: "Rule_Evaluate (NewFlashLoanOutflow G d) a s = (r, t)"
    by (cases "Rule_Evaluate (NewFlashLoanOutflow G d) a s")
  obtain r' t' where rt': "Rule_Evaluate (NewLargeOutflow G d) a s = (r', t')"
    by (cases "Rule_Evaluate (NewLargeOutflow G d) a s")
  have "drained age bal percent a = []"
    unfolding drained_eq using assms(4) round_trip_lends [OF assms(1-3)] by (auto simp: filter_empty_conv)
  then have "report_flash G age bal percent a = []" by (simp add: report_flash_def)
  moreover have "(\<Sum>x \<leftarrow> report_large G age bal percent a. Finding_Weight x) \<le> 40"
    by (simp add: report_large_def listed_def one_finding_def WeightHigh_def)
  ultimately show ?thesis
    using safe_outcome [OF outflow_client.flash_safe [OF client] assms(10) rt [unfolded d]]
      safe_outcome [OF outflow_client.large_safe [OF client] assms(10) rt' [unfolded d]]
      answers rt rt' unfolding d by auto
qed

text \<open>
  A loan of token 8 from address 5, and contract 2 drained of 60 of its 100 of token 9 after a round trip
  of one unit.
\<close>

definition drain_trace :: CallFrame where
  "drain_trace = plain_call ''CALL'' 1 6 0 ''''
     [transfer_log geth_model 8 5 6 1000, transfer_log geth_model 9 2 6 1, transfer_log geth_model 9 6 2 1,
      transfer_log geth_model 9 2 6 60, transfer_log geth_model 8 6 5 1000] []"

lemma decode_transfer_log:
  assumes "0 \<le> n" and "n < 2 ^ 256"
  shows "DecodeTransfer geth_model token [transferTopic geth_model, address_word x, address_word y] (be_bytes 32 n) =
    Some (Some (erc20 token x y n))"
  using assms geth_model_bytes_ok
  by (simp add: DecodeTransfer_def be_int_be_bytes bytes_okD uint_word_of_int erc20_def)

lemma drain_transfers:
  "trace_transfers geth_model drain_trace =
     [erc20 8 5 6 1000, erc20 9 2 6 1, erc20 9 6 2 1, erc20 9 2 6 60, erc20 8 6 5 1000]"
  by (simp add: trace_transfers_def drain_trace_def plain_call_def logs_of_def transfer_log_def decode_transfer_log)

abbreviation flow_entry :: "address \<Rightarrow> address \<Rightarrow> int \<Rightarrow> int \<Rightarrow> Flow" where
  "flow_entry asset holder x y \<equiv>
     \<lparr>Flow_Asset = asset, Flow_Holder = holder, Flow_Out = x, Flow_In = y\<rparr>"

lemma drain_flows:
  "trace_flows geth_model drain_trace =
     [flow_entry 8 5 1000 1000, flow_entry 8 6 1000 1000, flow_entry 9 2 61 1, flow_entry 9 6 1 61]"
  unfolding trace_flows_def drain_transfers
  by (simp add: computeFlows_def flow_def moves_ETH_def erc20_def frames_of_def drain_trace_def plain_call_def
    frame_of_def move_def add_in_def add_out_def)

lemma drain_vault:
  assumes "Build geth_model example_tx (Some drain_trace) = Some a"
  shows "loses_much (status_of example_chain 7200) (balance_of geth_model example_chain) 50 a fl \<and> fl \<in> set (Analysis_Flows a)
    \<longleftrightarrow> fl = flow_entry 9 2 61 1"
proof -
  have "Analysis_Created a = []"
    by (simp add: Build_fields(5) [OF assms] created_of_def drain_trace_def plain_call_def created_by_def)
  moreover have "balance_of geth_model example_chain (9, 2) = Some 100"
    by (simp add: balance_of_def example_chain_def be_int_be_bytes)
  moreover have "status_of example_chain 7200 2 \<noteq> NoCode"
    by (simp add: status_of_def example_chain_def)
  ultimately show ?thesis
    by (auto simp: Build_fields(11) [OF assms] drain_flows loses_much_def NetOut_def)
qed

lemma example_answers:
  "always_answers (RPCFreshness_Status geth_model example_reader)" "always_answers example_balances"
proof -
  show "always_answers (RPCFreshness_Status geth_model example_reader)"
    by (simp add: always_answers_def RPCFreshness_Status_def pastBlock_def example_reader_def chain_node_def
        io_bind_def on_err_def ext_call_def ret_def)
  show "always_answers example_balances"
    by (simp add: always_answers_def RPCBalances_Balance_def example_reader_def chain_node_def example_chain_def
        io_bind_def io_try_def on_err_def ext_call_def ret_def)
qed

theorem round_trip_hides_drain_witness:
  "\<exists>a. Build geth_model example_tx (Some drain_trace) = Some a \<and>
     loses_much (status_of example_chain 7200) (balance_of geth_model example_chain) 50 a (flow_entry 9 2 61 1) \<and>
     5 \<in> FlashLoan_Lender ` set (Analysis_FlashLoans a) \<and>
     (\<exists>t. Rule_Evaluate (NewFlashLoanOutflow geth_model
        \<lparr>od_status = RPCFreshness_Status geth_model example_reader, od_balances = example_balances, od_percent = 50\<rparr>)
        a example_world = (Ok [], t))"
proof -
  obtain a where a: "Build geth_model example_tx (Some drain_trace) = Some a"
    using Build_defined by blast
  note fields = Build_fields [OF a]
  have ts: "Analysis_Transfers a = [erc20 8 5 6 1000] @ erc20 9 2 6 1 # [erc20 9 6 2 1, erc20 9 2 6 60, erc20 8 6 5 1000]"
    by (simp add: fields(7) drain_transfers)
  have loan: "opens_loan (erc20 9 2 6 1) [erc20 9 6 2 1, erc20 9 2 6 60, erc20 8 6 5 1000]"
    by (simp add: opens_loan_def repaid_to_def pays_back_def erc20_def)
  have only: "\<forall>fl \<in> set (Analysis_Flows a). loses_much (status_of example_chain 7200) (balance_of geth_model example_chain) 50 a fl \<longrightarrow>
      Flow_Holder fl = Transfer_From (erc20 9 2 6 1)"
  proof (intro ballI impI)
    fix fl
    assume "fl \<in> set (Analysis_Flows a)" "loses_much (status_of example_chain 7200) (balance_of geth_model example_chain) 50 a fl"
    then have "fl = flow_entry 9 2 61 1" using drain_vault [OF a, of fl] by blast
    then show "Flow_Holder fl = Transfer_From (erc20 9 2 6 1)" by (simp add: erc20_def)
  qed
  have "borrowed (5, 8) (trace_transfers geth_model drain_trace)"
    by (simp add: drain_transfers opens_loan_def repaid_to_def pays_back_def erc20_def)
  then have "(5, 8) \<in> loan_key ` set (pattern_loans (\<lambda>_. False) (trace_transfers geth_model drain_trace))"
    unfolding pattern_loans_keys by simp
  then have "5 \<in> FlashLoan_Lender ` set (Analysis_FlashLoans a)"
    unfolding fields(12) trace_loans_def mergeFlashLoans_lenders by (force simp: loan_key_def)
  with conjunct1 [OF round_trip_hides_drain [OF a ts loan only example_freshness(2) example_balance_lookup
        example_answers example_detector example_freshness(3)]] drain_vault [OF a, of "flow_entry 9 2 61 1"] a
  show ?thesis by blast
qed

end
