(* ===== verification/Respond.thy ===== *)
theory Respond
  imports Jsonrpc Strconv
begin

text \<open>
  The bytes \<open>WriteError\<close> (\<open>internal/jsonrpc\<close>) sends, as \<open>json.NewEncoder(w).Encode\<close> writes them: strings
  with the escapes of \<open>encoding/json\<close> (HTML characters included), the identifier compacted, a newline at
  the end.
\<close>

subsection \<open>Encoding a string\<close>

definition unicode_escape :: "nat \<Rightarrow> string" where
  "unicode_escape n =
     [CHR 0x5C, CHR ''u'', hex_digit (n div 4096 mod 16), hex_digit (n div 256 mod 16), hex_digit (n div 16 mod 16),
      hex_digit (n mod 16)]"

definition is_html :: "char \<Rightarrow> bool" where
  "is_html c \<longleftrightarrow> c = CHR ''<'' \<or> c = CHR ''>'' \<or> c = CHR ''&''"

definition escape_byte :: "char \<Rightarrow> string" where
  "escape_byte c =
     (if c = CHR 0x5C \<or> c = CHR 0x22 then [CHR 0x5C, c]
      else if c = CHR 0x08 then [CHR 0x5C, CHR ''b'']
      else if c = CHR 0x0C then [CHR 0x5C, CHR ''f'']
      else if c = CHR 0x0A then [CHR 0x5C, CHR ''n'']
      else if c = CHR 0x0D then [CHR 0x5C, CHR ''r'']
      else if c = CHR 0x09 then [CHR 0x5C, CHR ''t'']
      else if (of_char c :: nat) < 32 \<or> is_html c then unicode_escape (of_char c)
      else [c])"

text \<open>The line separators U+2028 and U+2029 at the start of a text.\<close>

definition line_separator :: "string \<Rightarrow> nat option" where
  "line_separator s =
     (if take 3 s = [CHR 0xE2, CHR 0x80, CHR 0xA8] then Some 0x2028
      else if take 3 s = [CHR 0xE2, CHR 0x80, CHR 0xA9] then Some 0x2029
      else None)"

fun encode_string :: "string \<Rightarrow> string" where
  "encode_string [] = []"
| "encode_string (c # s) =
     (if (of_char c :: nat) < 128 then escape_byte c @ encode_string s
      else if utf8_len (c # s) = 0 then unicode_escape 0xFFFD @ encode_string s
      else case line_separator (c # s) of
        Some n \<Rightarrow> unicode_escape n @ encode_string (drop 2 s)
      | None \<Rightarrow> take (utf8_len (c # s)) (c # s) @ encode_string (drop (utf8_len (c # s) - 1) s))"

declare encode_string.simps [simp del]

text \<open>The text with its bytes that are not valid UTF-8 replaced.\<close>

fun to_valid :: "string \<Rightarrow> string" where
  "to_valid [] = []"
| "to_valid (c # s) =
     (if (of_char c :: nat) < 128 then c # to_valid s
      else if utf8_len (c # s) = 0 then replacement_char @ to_valid s
      else take (utf8_len (c # s)) (c # s) @ to_valid (drop (utf8_len (c # s) - 1) s))"

declare to_valid.simps [simp del]

subsection \<open>Reading it back\<close>

lemma hex_digit_char: "n < 16 \<Longrightarrow> is_hex_char (hex_digit n)"
  using hex_digit_alphabet [of n] by (auto simp: is_hex_char_def)

lemma nibbles: "n < 65536 \<Longrightarrow> ((n div 4096 mod 16 * 16 + n div 256 mod 16) * 16 + n div 16 mod 16) * 16 + n mod 16 = (n :: nat)"
proof -
  assume "n < 65536"
  then have "n div 4096 mod 16 = n div 4096" by (simp add: less_mult_imp_div_less)
  moreover have "n div 4096 = n div 16 div 16 div 16" "n div 256 = n div 16 div 16"
    by (simp_all flip: div_mult2_eq)
  moreover have "m div 16 * 16 + m mod 16 = m" for m :: nat by simp
  ultimately show ?thesis by simp
qed

lemma getu4_escape: "n < 65536 \<Longrightarrow> getu4 (unicode_escape n @ s) = Some n"
  by (simp only: unicode_escape_def append_Cons append_Nil getu4_def list.case)
    (simp add: hex_digit_char hex_val_digit del: mod_mult_self3, use nibbles in simp) 

lemma scan_escape: "scan_string (unicode_escape n @ s) = map_option (apfst ((@) (unicode_escape n))) (scan_string s)"
  by (simp add: unicode_escape_def hex_digit_char apfst_def map_prod_def case_prod_unfold)

lemma unquote_escape:
  assumes "n < 65536" and "\<not> (0xD800 \<le> n \<and> n < 0xE000)"
  shows "unquote (unicode_escape n @ s) = map_option ((@) (encode_rune n)) (unquote s)"
proof -
  have "unquote (unicode_escape n @ s) = map_option ((@) (encode_rune n)) (unquote (drop 5 (tl (unicode_escape n @ s))))"
    using getu4_escape [OF assms(1), of s] assms(2) unfolding unicode_escape_def append_Cons
    by (subst unquote.simps) auto
  then show ?thesis by (simp add: unicode_escape_def)
qed

lemma scan_escape_byte:
  "(of_char c :: nat) < 128 \<Longrightarrow>
     scan_string (escape_byte c @ s) = map_option (apfst ((@) (escape_byte c))) (scan_string s)"
  by (auto simp: escape_byte_def scan_escape apfst_def map_prod_def case_prod_unfold)

lemma unquote_escape_byte:
  assumes "(of_char c :: nat) < 128"
  shows "unquote (escape_byte c @ s) = map_option ((#) c) (unquote s)"
proof (cases "(of_char c :: nat) < 32 \<or> is_html c")
  case True
  have "encode_rune (of_char c) = [c]" using assms by (simp add: encode_rune_def)
  moreover have "map_option ((@) [c]) x = map_option ((#) c) x" for x by (cases x) auto
  ultimately show ?thesis
    using unquote_escape [of "of_char c" s] assms True
    by (auto simp: escape_byte_def unquote.simps simple_escape_def)
next
  case False
  with assms show ?thesis
    by (auto simp: escape_byte_def unquote.simps simple_escape_def)
qed


lemma in_range_high: "in_range c lo hi \<Longrightarrow> 128 \<le> lo \<Longrightarrow> 128 \<le> (of_char c :: nat)"
  by (simp add: in_range_def)

lemma utf8_len_prefix:
  assumes "utf8_len s = k" and "0 < k"
  shows "\<exists>t u. s = t @ u \<and> length t = k \<and> (\<forall>c \<in> set t. 128 \<le> (of_char c :: nat)) \<and> (\<forall>r. utf8_len (t @ r) = k)"
proof -
  obtain a b s2 where s: "s = a # b # s2"
    using assms by (auto simp: utf8_len_def split: list.splits)
  consider "in_range a 0xC2 0xDF" | "\<not> in_range a 0xC2 0xDF" "in_range a 0xE0 0xEF"
    | "\<not> in_range a 0xC2 0xDF" "\<not> in_range a 0xE0 0xEF" "in_range a 0xF0 0xF4"
    using assms by (auto simp: utf8_len_def s split: if_splits)
  then show ?thesis
  proof cases
    case 1
    with assms have "in_range b 0x80 0xBF" "k = 2" by (auto simp: utf8_len_def s split: if_splits)
    with 1 show ?thesis
      by (intro exI [of _ "[a, b]"] exI [of _ s2]) (auto simp: s utf8_len_def intro: in_range_high)
  next
    case 2
    with assms obtain c s3 where c: "s2 = c # s3" "in_range c 0x80 0xBF" "k = 3"
        "in_range b (if a = CHR 0xE0 then 0xA0 else 0x80) (if a = CHR 0xED then 0x9F else 0xBF)"
      by (auto simp: utf8_len_def s split: if_splits list.splits)
    with 2 show ?thesis
      by (intro exI [of _ "[a, b, c]"] exI [of _ s3]) (auto simp: s utf8_len_def elim: in_range_high)
  next
    case 3
    with assms obtain c d s3 where c: "s2 = c # d # s3" "in_range c 0x80 0xBF" "in_range d 0x80 0xBF" "k = 4"
        "in_range b (if a = CHR 0xF0 then 0x90 else 0x80) (if a = CHR 0xF4 then 0x8F else 0xBF)"
      by (auto simp: utf8_len_def s split: if_splits list.splits)
    with 3 show ?thesis
      by (intro exI [of _ "[a, b, c, d]"] exI [of _ s3]) (auto simp: s utf8_len_def elim: in_range_high)
  qed
qed

lemma utf8_len_cases:
  assumes "utf8_len s = k" and "0 < k"
  shows "k \<le> length s" and "\<forall>c \<in> set (take k s). 128 \<le> (of_char c :: nat)" and "utf8_len (take k s @ r) = k"
  using utf8_len_prefix [OF assms] by auto

lemma scan_high:
  "\<forall>c \<in> set t. 128 \<le> (of_char c :: nat) \<Longrightarrow> scan_string (t @ s) = map_option (apfst ((@) t)) (scan_string s)"
  by (induction t) (auto simp: option.map_comp o_def apfst_def map_prod_def case_prod_unfold option.map_ident)

lemma unquote_high:
  assumes "utf8_len (c # s) = k" and "0 < k"
  shows "unquote (take k (c # s) @ r) = map_option ((@) (take k (c # s))) (unquote r)"
proof -
  obtain t where t: "take k (c # s) = c # t" using assms(2) by (cases k) auto
  have "length (take k (c # s)) = k" using utf8_len_cases(1) [OF assms] by simp
  then have len: "utf8_len (c # t @ r) = k" "length (c # t) = k"
    using utf8_len_cases(3) [OF assms, of r] by (simp_all only: t append_Cons)
  have "128 \<le> (of_char c :: nat)" using utf8_len_cases(2) [OF assms] t by simp
  moreover from this have "c \<noteq> CHR 0x5C" "c \<noteq> CHR 0x22" by auto
  moreover have "take k (c # t @ r) = c # t" "drop k (c # t @ r) = r"
    using len(2) by (simp_all flip: append_Cons)
  ultimately show ?thesis
    unfolding t append_Cons using len(1) assms(2) by (subst unquote.simps) (cases "unquote r", simp_all)
qed

lemma line_separator_rune:
  assumes "line_separator s = Some n"
  shows "utf8_len s = 3" and "encode_rune n = take 3 s" and "n < 65536" and "\<not> (0xD800 \<le> n \<and> n < 0xE000)"
proof -
  have n: "n = 0x2028 \<and> take 3 s = [CHR 0xE2, CHR 0x80, CHR 0xA8] \<or> n = 0x2029 \<and> take 3 s = [CHR 0xE2, CHR 0x80, CHR 0xA9]"
    using assms by (auto simp: line_separator_def split: if_splits)
  then obtain u where "s = take 3 s @ u" by (metis append_take_drop_id)
  with n have "\<exists>x. s = [CHR 0xE2, CHR 0x80, x] @ u \<and> in_range x 0x80 0xBF" by (auto simp: in_range_def)
  then show "utf8_len s = 3" by (auto simp: utf8_len_def in_range_def)
  show "encode_rune n = take 3 s" "n < 65536" "\<not> (0xD800 \<le> n \<and> n < 0xE000)"
    using n by (auto simp: encode_rune_def char_of_eq_iff)
qed

lemma scan_encoded: "scan_string (encode_string m @ CHR 0x22 # r) = Some (encode_string m, r)"
proof (induction m rule: encode_string.induct)
  case 1
  then show ?case by (simp add: encode_string.simps)
next
  case (2 c s)
  show ?case
    using 2
    by (subst (1 2) encode_string.simps)
      (auto simp: scan_escape_byte scan_escape scan_high utf8_len_cases(2) split: option.split)
qed

lemma unquote_encoded: "unquote (encode_string m) = Some (to_valid m)"
proof (induction m rule: encode_string.induct)
  case 1
  then show ?case by (simp add: encode_string.simps to_valid.simps unquote.simps)
next
  case (2 c s)
  have ffd: "encode_rune 0xFFFD = replacement_char" by (simp add: encode_rune_def replacement_char_def char_of_eq_iff)
  have sep: "unquote (unicode_escape n @ encode_string (drop 2 s)) = Some (take 3 (c # s) @ to_valid (drop 2 s))"
    if "line_separator (c # s) = Some n" "unquote (encode_string (drop 2 s)) = Some (to_valid (drop 2 s))" for n
    using that line_separator_rune [OF that(1)] by (simp add: unquote_escape)
  show ?case
    using 2 line_separator_rune(1) [of "c # s"]
    by (subst encode_string.simps, subst to_valid.simps)
      (auto simp: unquote_escape_byte unquote_escape ffd unquote_high sep split: option.split)
qed


subsection \<open>The response\<close>

text \<open>
  \<open>json.RawMessage\<close> as the encoder writes it: white space between tokens dropped, HTML characters and
  line separators escaped. The flag says whether the position is inside a string.
\<close>

fun compact :: "bool \<Rightarrow> string \<Rightarrow> string" where
  "compact q [] = []"
| "compact q (c # s) =
     (if is_html c then unicode_escape (of_char c) @ compact q s
      else case line_separator (c # s) of
        Some n \<Rightarrow> unicode_escape n @ compact q (drop 2 s)
      | None \<Rightarrow>
          if \<not> q \<and> is_ws c then compact q s
          else if q \<and> c = CHR 0x5C then (case s of [] \<Rightarrow> [c] | e # s1 \<Rightarrow> c # e # compact q s1)
          else if c = CHR 0x22 then c # compact (\<not> q) s
          else c # compact q s)"

declare compact.simps [simp del]

text \<open>\<open>Encode\<close> fails, and nothing is written, when the raw identifier is not JSON.\<close>

definition WriteError_body :: "string \<Rightarrow> int \<Rightarrow> string \<Rightarrow> string" where
  "WriteError_body i code message =
     (let i' = (if length i = 0 then ''null'' else i)
      in if parse_json i' = None then []
         else ''{'' @ quoted ''jsonrpc'' @ '':'' @ quoted ''2.0'' @ '','' @
              quoted ''id'' @ '':'' @ compact False i' @ '','' @
              quoted ''error'' @ '':'' @ ''{'' @ quoted ''code'' @ '':'' @ show_int code @ '','' @
              quoted ''message'' @ '':'' @ quoted (encode_string message) @ ''}'' @ ''}'' @ [CHR 0x0A])"

subsection \<open>Numbers\<close>

lemma show_nat_no_zero: "0 < n \<Longrightarrow> hd (show_nat n) \<noteq> CHR ''0''"
proof (induction n rule: show_nat.induct)
  case (1 n)
  have "\<forall>m \<in> set [1..<10]. char_of (48 + m :: nat) \<noteq> CHR ''0''" by code_simp
  then have "char_of (48 + n) \<noteq> CHR ''0''" if "n < 10" using that 1(2) by simp
  then show ?case
    using 1 by (subst show_nat.simps) (auto simp: div_greater_zero_iff)
qed

definition stops_number :: "string \<Rightarrow> bool" where
  "stops_number r \<longleftrightarrow> (case r of [] \<Rightarrow> True | c # _ \<Rightarrow> \<not> is_digit c) \<and> ends_value r"

lemma number_rest: "stops_number r \<Longrightarrow> Option.bind (number_frac r) number_exp = Some r"
  by (auto simp: stops_number_def ends_value_def number_frac_def number_exp_def split: list.splits)

lemma number_int_show:
  assumes "stops_number r"
  shows "number_int (show_nat n @ r) = Some r"
proof (cases "n = 0")
  case True
  then show ?thesis by (subst show_nat.simps) (simp add: number_int_def char_of_eq_iff)
next
  case False
  obtain c t where t: "show_nat n = c # t" using show_nat_nonempty [of n] by (cases "show_nat n") auto
  have "is_digit c" "list_all is_digit t" using show_nat_digits [of n] by (simp_all add: t)
  moreover have "c \<noteq> CHR ''0''" using show_nat_no_zero [of n] False t by simp
  moreover have "dropWhile is_digit r = r" using assms by (cases r) (auto simp: stops_number_def)
  ultimately show ?thesis
    by (simp add: t number_int_def digits1_def dropWhile_append2 list_all_iff)
qed

lemma scan_number_show:
  assumes "stops_number r"
  shows "scan_number (show_int n @ r) = Some r"
proof (cases "n < 0")
  case True
  with assms show ?thesis
    by (simp add: scan_number_def show_int_def number_int_show number_rest)
next
  case False
  obtain c t where t: "show_nat (nat n) = c # t" using show_nat_nonempty [of "nat n"] by (cases "show_nat (nat n)") auto
  with is_digit_sign [OF show_nat_hd, of "nat n"] have "c \<noteq> CHR ''-''" by simp
  with False t number_int_show [OF assms, of "nat n"] number_rest [OF assms] show ?thesis
    by (simp add: scan_number_def show_int_def)
qed

lemma show_int_head:
  obtains c t where "show_int n = c # t" and "c = CHR ''-'' \<or> is_digit c"
proof (cases "n < 0")
  case True
  then show ?thesis using that by (simp add: show_int_def)
next
  case False
  then show ?thesis
    using that show_nat_hd [of "nat n"] show_nat_nonempty [of "nat n"]
    by (cases "show_nat (nat n)") (auto simp: show_int_def)
qed

lemma number_head: "c = CHR ''-'' \<or> is_digit c \<Longrightarrow> c \<notin> set ''{[ntf'' \<and> c \<noteq> CHR 0x22 \<and> \<not> is_ws c"
  by (auto simp: is_digit_def is_ws_def)

lemma parse_number:
  assumes "stops_number r"
  shows "parse_value d (show_int n @ r) = Some (JNumber, r)"
proof (rule show_int_head [of n])
  fix c t
  assume t: "show_int n = c # t" and c: "c = CHR ''-'' \<or> is_digit c"
  note h = number_head [OF c]
  have "skip_ws (c # t @ r) = c # t @ r" using h by (simp add: skip_ws_def)
  then show ?thesis
    using h c scan_number_show [OF assms, of n]
    by (subst parse_value.simps) (simp add: t parse_scalar_def)
qed

subsection \<open>Reading the response back\<close>

text \<open>A value of an object, followed by the next member or the end.\<close>

definition reads :: "nat \<Rightarrow> string \<Rightarrow> json \<Rightarrow> bool" where
  "reads d t v \<longleftrightarrow> (\<forall>c r. c = CHR '','' \<or> c = CHR ''}'' \<longrightarrow>
     parse_value d (t @ c # r) = Some (v, c # r) \<and> skip_ws (t @ c # r) = t @ c # r)"

lemma members_next:
  assumes "plain k" and "reads d t v"
  shows "parse_members d (quoted k @ '':'' @ t @ CHR '','' # r) = map_option (apfst ((#) (k, t, v))) (parse_members d r)"
    and "parse_members d (quoted k @ '':'' @ t @ CHR ''}'' # r) = Some ([(k, t, v)], r)"
  using assms(2) parse_key_quoted [OF assms(1)]
  by (subst parse_members_eq, simp add: reads_def parse_sep_simps raw_text_append)+

lemma reads_number: "reads d (show_int n) JNumber"
proof -
  have "skip_ws (show_int n @ r) = show_int n @ r" for r
    by (rule show_int_head [of n]) (simp add: skip_ws_def number_head)
  then show ?thesis
    by (auto simp: reads_def intro!: parse_number simp: stops_number_def is_digit_def ends_value_def)
qed

lemma skip_ws_quote: "skip_ws (CHR 0x22 # s) = CHR 0x22 # s"
  by (simp add: skip_ws_def is_ws_def)

lemma parse_encoded: "parse_value d (quoted (encode_string m) @ r) = Some (JString (to_valid m), r)"
  by (subst parse_value.simps) (simp add: quoted_def skip_ws_quote parse_scalar_def scan_encoded unquote_encoded)

lemma skip_ws_quoted: "skip_ws (quoted t @ r) = quoted t @ r"
  by (simp add: quoted_def skip_ws_quote)

lemma reads_strings:
  "reads d (quoted (encode_string m)) (JString (to_valid m))"
  "plain t \<Longrightarrow> reads d (quoted t) (JString t)"
  by (simp_all add: reads_def parse_encoded parse_scalar_print(5) skip_ws_quoted)

lemma reads_null: "reads d ''null'' JNull"
  using parse_scalar_print(2) [of d] by (simp add: reads_def skip_ws_def is_ws_def)

lemma parse_object:
  assumes "d < maxNestingDepth"
  shows "parse_value d (''{'' @ quoted k @ s) = map_option (apfst JObject) (parse_members (d + 1) (quoted k @ s))"
  using parse_container(2) [OF assms] by (simp add: quoted_def)

lemma reads_object:
  assumes "d < maxNestingDepth" and "plain k" "reads (d + 1) t v" and "plain l" "reads (d + 1) u x"
  shows "reads d (''{'' @ quoted k @ '':'' @ t @ '','' @ quoted l @ '':'' @ u @ ''}'') (JObject [(k, t, v), (l, u, x)])"
  unfolding reads_def
proof (intro allI impI conjI)
  fix c r
  have "parse_members (d + 1) (quoted k @ '':'' @ t @ CHR '','' # quoted l @ '':'' @ u @ CHR ''}'' # c # r) =
      Some ([(k, t, v), (l, u, x)], c # r)"
    using members_next(1) [OF assms(2,3)] members_next(2) [OF assms(4,5)] by simp
  with parse_object [OF assms(1), of k "'':'' @ t @ CHR '','' # quoted l @ '':'' @ u @ CHR ''}'' # c # r"]
  show "parse_value d ((''{'' @ quoted k @ '':'' @ t @ '','' @ quoted l @ '':'' @ u @ ''}'') @ c # r) =
      Some (JObject [(k, t, v), (l, u, x)], c # r)"
    by simp
qed (simp add: skip_ws_def is_ws_def)

text \<open>
  The identifiers of JSON-RPC: \<open>null\<close>, an integer, or a string, here without escapes and HTML characters.
\<close>

definition id_text :: "string \<Rightarrow> json \<Rightarrow> bool" where
  "id_text i v \<longleftrightarrow>
     i = ''null'' \<and> v = JNull \<or> (\<exists>n. i = show_int n \<and> v = JNumber) \<or>
     (\<exists>t. plain t \<and> list_all (\<lambda>c. \<not> is_html c) t \<and> i = quoted t \<and> v = JString t)"

lemma reads_id: "id_text i v \<Longrightarrow> reads d i v"
  by (auto simp: id_text_def intro: reads_null reads_number reads_strings)

lemma line_separator_low: "(of_char c :: nat) < 128 \<Longrightarrow> line_separator (c # s) = None"
  by (auto simp: line_separator_def)

lemma compact_plain:
  "plain t \<Longrightarrow> list_all (\<lambda>c. \<not> is_html c) t \<Longrightarrow> compact True (t @ s) = t @ compact True s"
  by (induction t) (auto simp: compact.simps plain_def line_separator_low)

lemma compact_digits: "list_all is_digit t \<Longrightarrow> compact False t = t"
  by (induction t) (auto simp: compact.simps is_digit_def is_html_def is_ws_def line_separator_def)

lemma compact_number: "compact False (show_int n) = show_int n"
  using show_nat_digits [of "nat n"] show_nat_digits [of "nat (- n)"]
  by (auto simp: show_int_def compact_digits) (simp add: compact.simps is_html_def is_ws_def line_separator_def compact_digits)

lemma compact_id: "id_text i v \<Longrightarrow> compact False i = i"
proof (unfold id_text_def, elim disjE conjE exE)
  fix t
  assume "plain t" "list_all (\<lambda>c. \<not> is_html c) t" "i = quoted t"
  then show ?thesis
    using compact_plain [of t "[CHR 0x22]"]
    by (simp add: quoted_def compact.simps is_html_def is_ws_def line_separator_def)
qed (simp_all add: compact_number, simp add: compact.simps is_html_def is_ws_def line_separator_def)

lemma id_parses:
  assumes "id_text i v"
  shows "parse_json i = Some v" and "i \<noteq> []"
proof -
  have "stops_number []" by (simp add: stops_number_def ends_value_def)
  then have "parse_value 0 (i @ []) = Some (v, [])"
    using assms parse_number [of "[]" 0] parse_scalar_print(2) [of 0 "[]"] parse_scalar_print(5) [of _ 0 "[]"]
    by (auto simp: id_text_def)
  then show i: "parse_json i = Some v" by (simp add: parse_json_def skip_ws_def)
  have "parse_json [] = None" by (simp add: parse_json_def parse_value.simps skip_ws_def)
  with i show "i \<noteq> []" by auto
qed

lemma WriteError_reads:
  assumes "id_text i v"
  shows "\<exists>raw. parse_json (WriteError_body i code message) =
    Some (JObject [(''jsonrpc'', quoted ''2.0'', JString ''2.0''), (''id'', i, v),
      (''error'', raw, JObject [(''code'', show_int code, JNumber),
         (''message'', quoted (encode_string message), JString (to_valid message))])])"
proof -
  let ?e = "''{'' @ quoted ''code'' @ '':'' @ show_int code @ '','' @ quoted ''message'' @ '':'' @
      quoted (encode_string message) @ ''}''"
  let ?err = "JObject [(''code'', show_int code, JNumber),
         (''message'', quoted (encode_string message), JString (to_valid message))]"
  have plains: "plain ''jsonrpc''" "plain ''2.0''" "plain ''id''" "plain ''error''" "plain ''code''" "plain ''message''"
    by (simp_all add: plain_def)
  have e: "reads 1 ?e ?err"
    using reads_object [of 1 "''code''" "show_int code" JNumber "''message''"] plains reads_number reads_strings(1)
    by (simp add: maxNestingDepth_def)
  have "parse_members 1 (quoted ''jsonrpc'' @ '':'' @ quoted ''2.0'' @ CHR '','' # quoted ''id'' @ '':'' @ i @ CHR '','' #
      quoted ''error'' @ '':'' @ ?e @ CHR ''}'' # [CHR 0x0A]) =
     Some ([(''jsonrpc'', quoted ''2.0'', JString ''2.0''), (''id'', i, v), (''error'', ?e, ?err)], [CHR 0x0A])"
    by (simp only: members_next(1) [OF plains(1) reads_strings(2) [OF plains(2)]]
      members_next(1) [OF plains(3) reads_id [OF assms]] members_next(2) [OF plains(4) e] option.map apfst_conv)
  then have "parse_value 0 (''{'' @ quoted ''jsonrpc'' @ '':'' @ quoted ''2.0'' @ CHR '','' # quoted ''id'' @ '':'' @ i @ CHR '','' #
      quoted ''error'' @ '':'' @ ?e @ CHR ''}'' # [CHR 0x0A]) =
     Some (JObject [(''jsonrpc'', quoted ''2.0'', JString ''2.0''), (''id'', i, v), (''error'', ?e, ?err)], [CHR 0x0A])"
    by (subst parse_object) (simp_all add: maxNestingDepth_def)
  moreover have "WriteError_body i code message = ''{'' @ quoted ''jsonrpc'' @ '':'' @ quoted ''2.0'' @ CHR '','' # quoted ''id'' @ '':'' @ i @
      CHR '','' # quoted ''error'' @ '':'' @ ?e @ CHR ''}'' # [CHR 0x0A]"
    using id_parses [OF assms] by (simp add: WriteError_body_def compact_id [OF assms])
  ultimately show ?thesis
    by (simp add: parse_json_def skip_ws_def is_ws_def)
qed

text \<open>
  C36. The client can read every error response: for an identifier of JSON-RPC's kinds, or none,
  whatever the message holds (the node's text is part of it), the bytes sent are one JSON object with the
  version, the identifier as it was received or \<open>null\<close> when there was none, the code, and the message, in
  which only bytes that are not valid UTF-8 are replaced.
\<close>

theorem WriteError_roundtrip:
  assumes "id_text (if i = [] then ''null'' else i) v"
  shows "\<exists>raw. parse_json (WriteError_body i code message) =
    Some (JObject [(''jsonrpc'', quoted ''2.0'', JString ''2.0''), (''id'', if i = [] then ''null'' else i, v),
      (''error'', raw, JObject [(''code'', show_int code, JNumber),
         (''message'', quoted (encode_string message), JString (to_valid message))])])"
proof -
  have "WriteError_body i code message = WriteError_body (if i = [] then ''null'' else i) code message"
    by (simp add: WriteError_body_def)
  with WriteError_reads [OF assms, of code message] show ?thesis by simp
qed

theorem WriteError_roundtrip_witness:
  "(\<exists>raw m. parse_json (WriteError_body ''7'' (-32003) ''a < \<newline>'') =
    Some (JObject [(''jsonrpc'', quoted ''2.0'', JString ''2.0''), (''id'', ''7'', JNumber), (''error'', raw, m)])) \<and>
   (\<exists>raw m. parse_json (WriteError_body [] (-32700) ''invalid JSON-RPC request'') =
    Some (JObject [(''jsonrpc'', quoted ''2.0'', JString ''2.0''), (''id'', ''null'', JNull), (''error'', raw, m)]))"
proof -
  have "show_int 7 = ''7''" by code_simp
  then have "id_text ''7'' JNumber" unfolding id_text_def by metis
  then have i7: "id_text (if ''7'' = [] then ''null'' else ''7'') JNumber" by simp
  have i0: "id_text (if [] = [] then ''null'' else []) JNull" by (simp add: id_text_def)
  from WriteError_roundtrip [OF i7, of "-32003" "''a < \<newline>''"]
    WriteError_roundtrip [OF i0, of "-32700" "''invalid JSON-RPC request''"] show ?thesis
    unfolding if_True if_False by (simp only: list.distinct if_False simp_thms if_True) blast
qed

text \<open>Text that is valid UTF-8 is not changed; ASCII text in particular.\<close>

lemma to_valid_ascii: "list_all (\<lambda>c. (of_char c :: nat) < 128) m \<Longrightarrow> to_valid m = m"
  by (induction m) (simp_all add: to_valid.simps)

end
