(* ===== verification/Spec2Isabelle.thy ===== *)
theory Spec2Isabelle
  imports Service Limits Respond
begin

text \<open>
  \<^bold>\<open>tx-firewall\<close>: a JSON-RPC proxy in front of an Ethereum node. It lets every request through unchanged,
  except that each \<open>eth_sendRawTransaction\<close> is first decoded, simulated on the node, analysed by eight
  rules and scored; a blocked transaction, or one that cannot be screened, rejects the whole request.
  This development models the program under \<open>src/\<close> and proves what it promises.

  \<^bold>\<open>The parts, in the order a request meets them, and their theories.\<close>

  \<^item> \<open>cmd/firewall/main.go\<close> reads the configuration and wires the parts: \<open>Firewall\<close> (\<open>main\<close>, \<open>newScreener\<close>,
    \<open>newOracle\<close>, \<open>newFreshness\<close>, \<open>newSimulator\<close>), with \<open>Strconv\<close> for the integers of the environment and
    \<open>Logging\<close> for \<open>internal/logging\<close>. \<open>Startup\<close> says exactly when a start succeeds; \<open>Service\<close> has the
    running server, as a relation over the states it reaches.
  \<^item> \<open>internal/proxy\<close>: \<open>Proxy\<close>, the handler and its loop over the requests of a body.
  \<^item> \<open>internal/jsonrpc\<close> and \<open>internal/txdecode\<close>: \<open>Jsonrpc\<close>, on top of \<open>Json\<close>, a model of what they use of
    Go's \<open>encoding/json\<close> (syntax, unquoting, raw messages, keys in any letter case, the nesting limit);
    \<open>Respond\<close> has the bytes of an error response.
  \<^item> \<open>internal/screen\<close>: \<open>Screen\<close>, the pipeline simulate, analyse, evaluate.
  \<^item> \<open>internal/simulate\<close>: \<open>Trace\<close> (call frames, logs, the arguments of \<open>debug_traceCall\<close>) and \<open>Simulate\<close>.
  \<^item> \<open>internal/analysis\<close> with \<open>internal/events\<close>: \<open>Events\<close> (decoding of logs), \<open>Frames\<close> (the flattened trace),
    \<open>Flows\<close> (movements of assets), \<open>FlashLoans\<close>, and \<open>Analysis\<close> (\<open>Build\<close>).
  \<^item> \<open>internal/risk\<close>: \<open>Risk\<close>, the engine; its score keeps Go's 64-bit wrap-around.
  \<^item> \<open>internal/rules\<close>: \<open>Rules\<close> (sanctioned address, privilege change, deploy-and-call), \<open>RulesFresh\<close>
    (delegatecall to fresh code, unlimited approval, NFT drainer), \<open>RulesOutflow\<close> (large outflow, flash loan).
  \<^item> \<open>internal/sanctions\<close>: \<open>Sanctions\<close> (list, oracle, combination) and \<open>SanctionsCache\<close> (the cache of
    the oracle's answers, for one lookup and as a step relation of concurrent lookups).
  \<^item> \<open>internal/chainstate\<close>: \<open>Chainstate\<close> (the age of code and its cache) and \<open>Balance\<close>.

  \<open>Prelude\<close> has the shared vocabulary: bytes, addresses and hashes as words, big-endian integers, error
  values, and state-passing computations \<open>('s, 'a) io\<close> that return a value, return an error or panic. A
  definition has the name of the function it models; a method is prefixed with its type.

  \<^bold>\<open>State.\<close> The program keeps two maps between requests, the known contracts of \<open>CachedFreshness\<close> and
  the entries of \<open>CachedChecker\<close>; they and the outside world are the record \<open>world\<close> of \<open>World\<close>. A loop of
  the source is a recursive function with the loop's variables as arguments. Errors are values; a nil
  dereference, a division by zero and an index or a slice out of range are \<open>Panic\<close> or \<open>None\<close>. Every
  index and slice expression of the source whose bound is not a constant of the type is such a checked
  read (\<open>elem_at\<close> and \<open>subslice\<close> of \<open>Prelude\<close>): the first byte of a request, the transaction argument,
  the selector in the log record, topics and data in the event decoders, the table of flows, the frames in
  \<open>SubtreeEnd\<close>, the oracle's answer. A decoder that returns a value and a flag returns \<open>None\<close> for a panic,
  \<open>Some None\<close> for \<open>false\<close> and \<open>Some (Some x)\<close> for \<open>x\<close>. Slices that cannot fail are plain: \<open>word[12:]\<close> of a
  32-byte array, \<open>Keccak256(...)[:4]\<close> of a 32-byte hash, and the reads \<open>xs[i]\<close> of a loop over \<open>xs\<close>.

  \<^bold>\<open>Parameters and hypotheses.\<close> Code outside the repository is an argument of the model:

  \<^item> go-ethereum's hashing, hexadecimal, transaction and signature functions: the record \<open>geth\<close>. What is
    relied on is named (\<open>bytes_ok\<close>, \<open>hex_ok\<close>, \<open>topics_ok\<close>), and \<open>geth_model\<close> satisfies it.
  \<^item> the node and the oracle's node: records of RPC calls that answer or fail, each changing the outside
    world. Theorems that compare answers with a truth assume \<open>serves\<close> and \<open>traces\<close>: answers that are not
    errors come from one state of the chain, and any call may fail. Of the upstream node, the theorems
    that read balances assume \<open>errors_revert\<close> besides: it answers \<open>eth_call\<close> with a JSON-RPC error only
    when the call reverts, as the comment in \<open>balance.go\<close> says; \<open>Limits\<close> shows what is missed without it.
    Nothing of the kind is assumed of the oracle's node: an oracle call that fails in any way, reverts or
    answers no boolean never counts as clean. Theorems on starting, answering and memory assume nothing.
  \<^item> the operating system: environment, files, connections and clock, the record \<open>system\<close>.

  \<^bold>\<open>Interfaces\<close> are locales, each interpreted on the model's definitions: \<open>lookup_service\<close> (a lookup that
  answers truthfully or fails) with \<open>cached_reader\<close> built on it; \<open>partial_lookup\<close> (there may be no true
  answer, and then the lookup fails) with \<open>cached_checker\<close> and \<open>checkers\<close>; \<open>rule\<close> and
  \<open>weighted_rule\<close> with the clients of the lookups (\<open>sanctions_client\<close>, \<open>freshness_client\<close>, \<open>status_client\<close>,
  \<open>outflow_client\<close>); \<open>rules_engine\<close>, interpreted on the eight wired rules in \<open>Firewall\<close>; and \<open>lookups\<close> of
  \<open>Service\<close>, which assumes nothing of the answers.

  \<^bold>\<open>What is shown.\<close> End to end: only clean transactions are forwarded (below), a body is forwarded
  exactly when every transaction in it passed (\<open>Proxy\<close>), the verdict is the one the rules' contracts give
  (\<open>Firewall\<close>), the server answers every request and its memory is bounded (\<open>Service\<close>), and it starts
  exactly with a valid configuration (\<open>Startup\<close>). Per part: the analysis has exactly the effects of frames that
  did not revert, flows are the sums of movements, each rule reports exactly what its comment says, the
  sanctions decision is the truth or an error, answers of the cache are younger than its time to live
  under any interleaving, and the decoders and parsers invert the formats they read. \<open>Limits\<close> states
  where the code does less than its documentation says.

  \<^bold>\<open>Termination.\<close> All functions are total; no fuel is used. The JSON parser recurses on shorter texts,
  guarded where the length comes from a sub-parser, and \<open>parse_shorter\<close> shows the guards never fail. The
  bounds in the model are those of the source (body size, nesting depth, cache sizes, line length).

  \<^bold>\<open>Not modelled.\<close> The output of log calls, which no decision reads; the reverse proxy that forwards an
  accepted body and the HTTP server, which are Go's standard library; timeouts, which appear as errors of
  the node; the JSON decoding of the node's answers, which belongs to go-ethereum's client. Requests
  that run at the same time are modelled for the sanctions cache only; the handler's own theorems follow
  one request at a time.
\<close>

section \<open>What reaches the node\<close>

text \<open>The addresses that take part in a transaction, by its trace: those the documentation lists.\<close>

definition participants :: "geth \<Rightarrow> Decoded \<Rightarrow> CallFrame \<Rightarrow> address set" where
  "participants G tx f =
     {Decoded_From tx} \<union> {t. Tx_To (Decoded_Tx tx) = Some t}
     \<union> {t. \<exists>d c. alive f d c \<and> Call_To c = Some t}
     \<union> {Transfer_To m | m. \<exists>d c lg. alive f d c \<and> lg \<in> set (Call_Logs c) \<and>
          DecodeTransfer G (Log_Address lg) (Log_Topics lg) (Log_Data lg) = Some (Some m)}"

lemma clean_participants:
  assumes "clean G l orac rf ch tr percent threshold tx"
  shows "\<exists>a. Build G tx (Some (tr (newCallArgs tx))) = Some a \<and>
    (\<forall>x \<in> participants G tx (tr (newCallArgs tx)). \<not> sanctioned_by G l orac x) \<and>
    (\<Sum>f \<leftarrow> firewall_findings G (sanctioned_by G l orac) (status_of ch (rf_window rf)) (balance_of G ch) percent a.
       Finding_Weight f) < threshold"
proof -
  from assms obtain a where a: "Build G tx (Some (tr (newCallArgs tx))) = Some a"
      "\<not> (\<exists>x \<in> set (Analysis_Addresses a). sanctioned_by G l orac x)"
      "total_weight (firewall_findings G (sanctioned_by G l orac) (status_of ch (rf_window rf))
          (balance_of G ch) percent a) < threshold"
    unfolding clean_def by blast
  have "set (Analysis_Addresses a) = participants G tx (tr (newCallArgs tx))"
    using Build_address_set [OF a(1)] by (simp add: participants_def)
  with a show ?thesis by (auto simp: total_weight_def)
qed

text \<open>
  C1. What the firewall lets through: while the node and the oracle answer from one state of their
  chains or fail, every \<open>eth_sendRawTransaction\<close> in a body that is forwarded was decoded, and of its
  sender, recipient, called and created contracts and transfer recipients outside reverted frames none is
  on the list and, with an oracle, each was answered clean by the oracle's contract; the weights of
  everything the rules find in it add up to less than the threshold.
\<close>

theorem forwarded_transactions_clean:
  assumes "screening_inv G rf ch orac I w" and "traces (rf_reader rf) I tr"
    and "handler G (Screener_Screen G (firewall_screener G clock l orac rf percent threshold)) b w = (Ok (Forwarded body), t)"
  shows "\<exists>reqs. ParseRequests body = Some (Inr reqs) \<and>
    (\<forall>req \<in> set reqs. Request_Method req = ''eth_sendRawTransaction'' \<longrightarrow>
      (\<exists>tx a. DecodeRawTransaction G (Request_Params req) = Some (Inr tx) \<and>
         Build G tx (Some (tr (newCallArgs tx))) = Some a \<and>
         (\<forall>x \<in> participants G tx (tr (newCallArgs tx)). \<not> sanctioned_by G l orac x) \<and>
         (\<Sum>f \<leftarrow> firewall_findings G (sanctioned_by G l orac) (status_of ch (rf_window rf)) (balance_of G ch) percent a.
            Finding_Weight f) < threshold))"
proof -
  from assms(3) obtain reqs where reqs: "ParseRequests body = Some (Inr reqs)"
      "all_passed G (Screener_Screen G (firewall_screener G clock l orac rf percent threshold)) reqs w t"
    by (auto simp: handler_Forwarded)
  show ?thesis
    using reqs(1) all_passed_clean [OF assms(2) reqs(2) assms(1)] clean_participants by blast
qed

text \<open>A node whose every simulation is one call without effects.\<close>

definition quiet_trace :: CallFrame where
  "quiet_trace = plain_call ''CALL'' 1 2 0 '''' [] []"

definition quiet_node :: "unit node" where
  "quiet_node = (chain_node example_chain)\<lparr>node_TraceCall := (\<lambda>args e. (Inr quiet_trace, e))\<rparr>"

abbreviation quiet_reader :: "unit RPCFreshness" where
  "quiet_reader \<equiv> \<lparr>rf_reader = quiet_node, rf_window = 7200\<rparr>"

lemma quiet_screening:
  "screening_inv geth_model quiet_reader example_chain None (\<lambda>_. True) example_world"
  "traces (rf_reader quiet_reader) (\<lambda>_. True) (\<lambda>_. quiet_trace)"
proof -
  have "serves quiet_node example_chain (\<lambda>_. True)"
    using chain_node_serves [of example_chain] by (simp add: serves_def quiet_node_def)
  moreover have "errors_revert quiet_node example_chain (\<lambda>_. True)"
    using chain_node_errors [of example_chain] by (simp add: errors_revert_def quiet_node_def)
  ultimately show "screening_inv geth_model quiet_reader example_chain None (\<lambda>_. True) example_world"
    by (simp add: screening_inv_def oracle_inv_def all_established_def example_world_def)
  show "traces (rf_reader quiet_reader) (\<lambda>_. True) (\<lambda>_. quiet_trace)"
    by (simp add: traces_def answers_def quiet_node_def)
qed

lemma example_decoded:
  "DecodeRawTransaction geth_model (Request_Params (call_request example_call)) =
     Some (Inr \<lparr>Decoded_Tx = \<lparr>Tx_To = Some 813183026, Tx_Gas = 21000, Tx_Value = 0, Tx_Data = str_bytes ''0x02'',
       Tx_Hash = 813183026, Tx_Type = 2, Tx_Nonce = 0, Tx_ChainId = 1\<rparr>, Decoded_From = 1\<rparr>)"
proof -
  have "parse_json (Request_Params (call_request example_call)) = Some (JArray [JString ''0x02''])"
    unfolding call_request_def example_call_def
    by (simp add: parse_json_print plain_def maxNestingDepth_def del: print_json.simps)
  then show ?thesis
    by (simp add: DecodeRawTransaction_def decode_strings_def store_string_def geth_model_def str_bytes_def be_int_def)
qed


lemma quiet_run:
  assumes "Build geth_model tx (Some quiet_trace) = Some a"
  shows "Engine_Evaluate (Screener_engine (firewall_screener geth_model clock (NewListChecker []) None quiet_reader percent 50)) a w =
    (Ok \<lparr>Verdict_Block = False, Verdict_Score = 0, Verdict_Findings = []\<rparr>, w)"
proof -
  have live: "live 0 quiet_trace = [(0, quiet_trace)]"
    by (simp add: quiet_trace_def plain_call_def)
  note f = Build_fields [OF assms(1)]
  have none: "Analysis_Approvals a = []" "Analysis_ApprovalsForAll a = []" "Analysis_Privileged a = []"
      "Analysis_Frames a = [frame_of 0 quiet_trace]" "Analysis_Flows a = []" "Analysis_FlashLoans a = []"
    using f by (simp_all add: live logs_of_def frames_of_def trace_flows_def trace_loans_def trace_transfers_def
        announced_loans_def mergeFlashLoans_def computeFlows_def moves_ETH_def flow_def quiet_trace_def plain_call_def frame_of_def)
  have "AnyChecker_IsSanctioned (wired_checkers geth_model clock (NewListChecker []) None) = (\<lambda>_. ret False)"
    by (rule ext, rule ext) (simp add: wired_checkers_def io_bind_def ret_def ListChecker_IsSanctioned_def)
  moreover have "sanctioned_loop geth_model (\<lambda>_. ret False) fs xs w = (Ok fs, w)" for fs xs
    by (induction xs) (simp_all add: io_bind_def ret_def on_err_def)
  ultimately have sanc: "sanctioned_loop geth_model
      (AnyChecker_IsSanctioned (wired_checkers geth_model clock (NewListChecker []) None)) fs xs w = (Ok fs, w)" for fs xs
    by simp
  show ?thesis
    using none sanc
    by (simp add: firewall_screener_def firewall_rules_def Engine_Evaluate_def io_bind_def ret_def on_err_def
      NewSanctioned_def NewPrivilegeChange_def PrivilegeChange_Evaluate_def NewDeployAndCall_def DeployAndCall_Evaluate_def or_panic_def IsCreate_def
      NewDelegatecallToFresh_def DelegatecallToFresh_Evaluate_def NewUnlimitedApproval_def UnlimitedApproval_Evaluate_def
      NewNFTDrainer_def NFTDrainer_Evaluate_def NewLargeOutflow_def LargeOutflow_Evaluate_def OutflowDetector_Find_def
      NewFlashLoanOutflow_def FlashLoanOutflow_Evaluate_def zero_verdict_def quiet_trace_def plain_call_def frame_of_def)
qed


lemma quiet_forwards:
  "handler geth_model (Screener_Screen geth_model (firewall_screener geth_model clock (NewListChecker []) None quiet_reader 50 50))
     (print_json (call_json example_call), True) example_world =
   (Ok (Forwarded (print_json (call_json example_call))), example_world)"
proof -
  let ?scr = "Screener_Screen geth_model (firewall_screener geth_model clock (NewListChecker []) None quiet_reader 50 50)"
  obtain tx where tx: "DecodeRawTransaction geth_model (Request_Params (call_request example_call)) = Some (Inr tx)"
    using example_decoded by blast
  obtain a where a: "Build geth_model tx (Some quiet_trace) = Some a"
    using Build_defined by blast
  have "RPCSimulator_Simulate quiet_node tx example_world = (Ok quiet_trace, example_world)"
    by (simp add: RPCSimulator_Simulate_def trace_Ok quiet_node_def quiet_trace_def plain_call_def example_world_def)
  then have "?scr tx example_world = (Ok \<lparr>Verdict_Block = False, Verdict_Score = 0, Verdict_Findings = []\<rparr>, example_world)"
    unfolding Screen_Ok using a quiet_run [OF a, of clock 50 example_world] by (auto simp: firewall_screener_def)
  then have "all_passed geth_model ?scr [call_request example_call] example_world example_world"
    using tx by (auto simp: all_passed_simps call_request_def example_call_def)
  moreover have "length (print_json (call_json example_call)) \<le> maxBodySize"
    by (simp add: call_json_def member_def example_call_def quoted_def maxBodySize_def)
  ultimately show ?thesis
    using ParseRequests_single [OF example_call_ok(1)] by (simp add: handler_Forwarded)
qed

theorem forwarded_transactions_clean_witness:
  "\<exists>t reqs. handler geth_model (Screener_Screen geth_model (firewall_screener geth_model (\<lambda>_. 0) (NewListChecker []) None quiet_reader 50 50))
       (print_json (call_json example_call), True) example_world = (Ok (Forwarded (print_json (call_json example_call))), t) \<and>
     ParseRequests (print_json (call_json example_call)) = Some (Inr reqs) \<and>
     (\<forall>req \<in> set reqs. \<exists>tx. DecodeRawTransaction geth_model (Request_Params req) = Some (Inr tx))"
proof -
  have "\<forall>req \<in> set [call_request example_call]. Request_Method req = ''eth_sendRawTransaction''"
    by (simp add: call_request_def example_call_def)
  then show ?thesis
    using forwarded_transactions_clean [OF quiet_screening quiet_forwards] quiet_forwards
      ParseRequests_single [OF example_call_ok(1)] by fastforce
qed

end
